theory Spec2Isabelle
  imports Complex_Main "HOL-Library.Word"
begin

section \<open>JavaScript strings and errors\<close>

text \<open>
  A JavaScript string is a sequence of UTF-16 code units. The messages of
  \<^verbatim>\<open>App.tsx\<close> are Chinese, so a code unit is a 16-bit word and not a
  byte. \<open>js\<close> embeds an ASCII literal; the Chinese literals are written
  as their code units.
\<close>

type_synonym jschar = "16 word"
type_synonym jsstring = "jschar list"

definition js :: "string \<Rightarrow> jsstring" where
  "js s = map of_char s"

text \<open>
  A string or \<^verbatim>\<open>undefined\<close>/\<^verbatim>\<open>null\<close> is a
  \<open>jsstring option\<close>. It is truthy when it is present and not empty.
\<close>

definition truthy :: "jsstring option \<Rightarrow> bool" where
  "truthy v = (case v of None \<Rightarrow> False | Some s \<Rightarrow> s \<noteq> [])"

text \<open>\<^verbatim>\<open>v || d\<close> on strings.\<close>

definition orElse :: "jsstring option \<Rightarrow> jsstring \<Rightarrow> jsstring" where
  "orElse v d = (case v of None \<Rightarrow> d | Some s \<Rightarrow> if s = [] then d else s)"

text \<open>\<^verbatim>\<open>${v}\<close> in a template literal: \<^verbatim>\<open>undefined\<close> prints as the word.\<close>

definition interpolate :: "jsstring option \<Rightarrow> jsstring" where
  "interpolate v = (case v of None \<Rightarrow> js ''undefined'' | Some s \<Rightarrow> s)"

text \<open>\<^verbatim>\<open>${n}\<close> for a non-negative integer: its decimal digits.\<close>

definition digit :: "nat \<Rightarrow> jschar" where
  "digit d = of_nat (48 + d)"

fun showNat :: "nat \<Rightarrow> jsstring" where
  "showNat n = (if n < 10 then [digit n] else showNat (n div 10) @ [digit (n mod 10)])"

declare showNat.simps [simp del]

text \<open>\<^verbatim>\<open>s.split(c)\<close> for a one-character separator, and \<^verbatim>\<open>xs[i]\<close>,
  which is \<^verbatim>\<open>undefined\<close> out of range.\<close>

fun split :: "jschar \<Rightarrow> jsstring \<Rightarrow> jsstring list" where
  "split c [] = [[]]"
| "split c (x # xs) =
     (if x = c then [] # split c xs
      else (case split c xs of [] \<Rightarrow> [[x]] | y # ys \<Rightarrow> (x # y) # ys))"

fun item :: "'a list \<Rightarrow> nat \<Rightarrow> 'a option" where
  "item [] i = None"
| "item (x # xs) 0 = Some x"
| "item (x # xs) (Suc i) = item xs i"

text \<open>
  \<^verbatim>\<open>s.trim()\<close> removes white space and line terminators from both ends:
  TAB, LF, VT, FF, CR, SP, NBSP, U+1680, U+2000..U+200A, U+2028, U+2029, U+202F,
  U+205F, U+3000 and U+FEFF.
\<close>

definition isWhiteSpace :: "jschar \<Rightarrow> bool" where
  "isWhiteSpace c =
     (c \<in> set [0x9, 0xA, 0xB, 0xC, 0xD, 0x20, 0xA0, 0x1680, 0x2000, 0x2001, 0x2002,
                0x2003, 0x2004, 0x2005, 0x2006, 0x2007, 0x2008, 0x2009, 0x200A,
                0x2028, 0x2029, 0x202F, 0x205F, 0x3000, 0xFEFF])"

definition trim :: "jsstring \<Rightarrow> jsstring" where
  "trim s = rev (dropWhile isWhiteSpace (rev (dropWhile isWhiteSpace s)))"

text \<open>\<^verbatim>\<open>s.startsWith(t)\<close> and \<^verbatim>\<open>s.includes(t)\<close>, here \<open>contains\<close>.\<close>

fun startsWith :: "jsstring \<Rightarrow> jsstring \<Rightarrow> bool" where
  "startsWith s [] = True"
| "startsWith [] (c # t) = False"
| "startsWith (d # s) (c # t) = (d = c \<and> startsWith s t)"

fun contains :: "jsstring \<Rightarrow> jsstring \<Rightarrow> bool" where
  "contains [] t = (t = [])"
| "contains (d # s) t = (startsWith (d # s) t \<or> contains s t)"

text \<open>A thrown value \<^verbatim>\<open>err: any\<close>, of which the code reads \<^verbatim>\<open>err.message\<close> only.\<close>

datatype jserror = Error (message: "jsstring option")

section \<open>The state of the component\<close>

text \<open>
  The \<^verbatim>\<open>useState\<close> cells of \<^verbatim>\<open>App\<close>, and the value of the file
  input behind \<^verbatim>\<open>fileInputRef\<close>.
\<close>

datatype view_mode = Single | Compare

record app_state =
  sourcePages :: "jsstring list"
  sourceMimeType :: "jsstring option"
  resultPages :: "jsstring list"
  isProcessing :: bool
  isUploading :: bool
  error :: "jsstring option"
  userPrompt :: jsstring
  viewMode :: view_mode
  fileInputValue :: jsstring

definition initial_state :: app_state where
  "initial_state =
     \<lparr> sourcePages = [], sourceMimeType = None, resultPages = [],
       isProcessing = False, isUploading = False, error = None,
       userPrompt = [], viewMode = Single, fileInputValue = [] \<rparr>"

section \<open>clearImage\<close>

definition clearImage :: "app_state \<Rightarrow> app_state" where
  "clearImage s =
     s\<lparr> sourcePages := [], sourceMimeType := None, resultPages := [],
        error := None, fileInputValue := [] \<rparr>"

section \<open>The edit service\<close>

text \<open>
  The parts of a request and of a response of \<^verbatim>\<open>ai.models.generateContent\<close>.
  Every field of the response may be absent.
\<close>

record inline_data =
  data :: "jsstring option"
  mimeType :: "jsstring option"

text \<open>The field \<^verbatim>\<open>text\<close> of a part is \<open>text'\<close> here.\<close>

record part =
  inlineData :: "inline_data option"
  text' :: "jsstring option"

record content =
  parts :: "part list option"

record candidate =
  content :: "content option"

record response =
  candidates :: "candidate list option"

record request =
  model :: jsstring
  contents :: "part list"
  systemInstruction :: jsstring

text \<open>
  The remote service is state passing: a call takes the state \<open>'w\<close> of the world and
  the request, and either rejects with an error or resolves to a response.
\<close>

type_synonym 'w edit_service = "'w \<Rightarrow> request \<Rightarrow> (jserror + response) \<times> 'w"

definition buildRequest :: "jsstring option \<Rightarrow> jsstring \<Rightarrow> jsstring \<Rightarrow> request" where
  "buildRequest mime prompt page =
     (let base64Data = item (split 0x2C page) 1 in
      \<lparr> model = js ''gemini-2.5-flash-image'',
        contents =
          [\<lparr> inlineData = Some \<lparr> data = base64Data, mimeType = mime \<rparr>, text' = None \<rparr>,
           \<lparr> inlineData = None,
             text' = Some (js ''TASK: Image Editing.'' @ [0xA] @ js ''INSTRUCTION: '' @ trim prompt @ [0xA]
               @ js ''REQUIREMENT: Output ONLY the edited image. Do not add any new elements not requested. Maintain the original resolution and style.'') \<rparr>],
        systemInstruction =
          js ''You are a professional document and image restoration expert. Your specialty is removing handwriting, marks, and annotations from scanned documents and photos while perfectly preserving the original printed text and background structure. You always output the modified image directly.'' \<rparr>)"

text \<open>\<^verbatim>\<open>response.candidates && response.candidates[0]?.content?.parts\<close>; an array,
  also the empty one, is truthy.\<close>

definition responseParts :: "response \<Rightarrow> part list option" where
  "responseParts r =
     (case candidates r of
        None \<Rightarrow> None
      | Some cs \<Rightarrow>
          (case item cs 0 of
             None \<Rightarrow> None
           | Some c \<Rightarrow> (case content c of None \<Rightarrow> None | Some ct \<Rightarrow> parts ct)))"

definition imageUrl :: "inline_data \<Rightarrow> jsstring" where
  "imageUrl d =
     js ''data:'' @ orElse (mimeType d) (js ''image/png'') @ js '';base64,'' @ interpolate (data d)"

text \<open>
  The loop over the parts (lines 156 to 166): the result is the image found, if any,
  and \<^verbatim>\<open>textResponse\<close>.
\<close>

fun scanParts :: "part list \<Rightarrow> jsstring \<Rightarrow> jsstring option \<times> jsstring" where
  "scanParts [] textResponse = (None, textResponse)"
| "scanParts (p # ps) textResponse =
     (case inlineData p of
        Some d \<Rightarrow> (Some (imageUrl d), textResponse)
      | None \<Rightarrow>
          if truthy (text' p) then scanParts ps (textResponse @ interpolate (text' p))
          else scanParts ps textResponse)"

text \<open>The message of the error thrown at line 170, for the page of index \<open>i\<close>.\<close>

definition noImageMessage :: "nat \<Rightarrow> jsstring \<Rightarrow> jsstring" where
  "noImageMessage i textResponse =
     [0x7B2C, 0x20] @ showNat (i + 1)
     @ [0x20, 0x9875, 0x672A, 0x80FD, 0x751F, 0x6210, 0x56FE, 0x50CF, 0x3002, 0x41, 0x49,
        0x56DE, 0x590D, 0x3A, 0x20]
     @ orElse (Some textResponse) [0x65E0]"

text \<open>Lines 153 to 171: what one response gives for the page of index \<open>i\<close>, the
  image URL pushed to \<^verbatim>\<open>results\<close> or the error thrown.\<close>

definition pageResult :: "nat \<Rightarrow> response \<Rightarrow> jserror + jsstring" where
  "pageResult i r =
     (case (case responseParts r of None \<Rightarrow> (None, []) | Some ps \<Rightarrow> scanParts ps []) of
        (Some url, textResponse) \<Rightarrow> Inr url
      | (None, textResponse) \<Rightarrow> Inl (Error (Some (noImageMessage i textResponse))))"

section \<open>processImage\<close>

text \<open>
  What the loop over the pages leaves behind: the calls made to the service with
  their outcomes, the arguments of the successive \<^verbatim>\<open>setResultPages([...results])\<close>,
  the array \<^verbatim>\<open>results\<close> at the exit, the error thrown, if any, and the world.
\<close>

record 'w page_loop =
  calls :: "(request \<times> (jserror + response)) list"
  published :: "jsstring list list"
  results :: "jsstring list"
  thrown :: "jserror option"
  world :: 'w

fun processLoop ::
  "'w edit_service \<Rightarrow> jsstring option \<Rightarrow> jsstring \<Rightarrow> 'w \<Rightarrow> nat \<Rightarrow> jsstring list
     \<Rightarrow> jsstring list \<Rightarrow> 'w page_loop" where
  "processLoop gen mime prompt w i acc [] =
     \<lparr> calls = [], published = [], results = acc, thrown = None, world = w \<rparr>"
| "processLoop gen mime prompt w i acc (page # rest) =
     (let req = buildRequest mime prompt page in
      case gen w req of
        (Inl err, w') \<Rightarrow>
          \<lparr> calls = [(req, Inl err)], published = [], results = acc, thrown = Some err,
            world = w' \<rparr>
      | (Inr resp, w') \<Rightarrow>
          (case pageResult i resp of
             Inl err \<Rightarrow>
               \<lparr> calls = [(req, Inr resp)], published = [], results = acc, thrown = Some err,
                 world = w' \<rparr>
           | Inr url \<Rightarrow>
               (let l = processLoop gen mime prompt w' (Suc i) (acc @ [url]) rest in
                l\<lparr> calls := (req, Inr resp) # calls l,
                   published := (acc @ [url]) # published l \<rparr>)))"

text \<open>
  A run of \<^verbatim>\<open>processImage\<close>: the calls made, the states the component went
  through while the run was suspended on a call, the state at the end, and the world.
\<close>

record 'w edit_run =
  requested :: "(request \<times> (jserror + response)) list"
  rendered :: "app_state list"
  final :: app_state
  after :: 'w

definition processImage :: "'w edit_service \<Rightarrow> 'w \<Rightarrow> app_state \<Rightarrow> 'w edit_run" where
  "processImage gen w s =
     (if sourcePages s = [] \<or> \<not> truthy (sourceMimeType s)
      then \<lparr> requested = [], rendered = [], final = s, after = w \<rparr>
      else
        (let s1 = s\<lparr> isProcessing := True, error := None, resultPages := [] \<rparr>;
             l = processLoop gen (sourceMimeType s) (userPrompt s) w 0 []
                   (sourcePages s);
             s2 = s1\<lparr> resultPages := results l \<rparr>
         in \<lparr> requested = calls l,
              rendered = s1 # map (\<lambda>pages. s1\<lparr> resultPages := pages \<rparr>) (published l),
              final =
                (case thrown l of
                   None \<Rightarrow> s2\<lparr> isProcessing := False \<rparr>
                 | Some err \<Rightarrow>
                     s2\<lparr> error := Some (orElse (message err)
                                    [0x5904, 0x7406, 0x56FE, 0x50CF, 0x65F6, 0x53D1, 0x751F,
                                     0x9519, 0x8BEF, 0x3002]),
                         isProcessing := False \<rparr>),
              after = world l \<rparr>))"

text \<open>A response has an inline-image part when some part of its first candidate
  carries \<^verbatim>\<open>inlineData\<close>.\<close>

definition hasInlineImage :: "response \<Rightarrow> bool" where
  "hasInlineImage r =
     (case responseParts r of None \<Rightarrow> False | Some ps \<Rightarrow> list_ex (\<lambda>p. inlineData p \<noteq> None) ps)"

section \<open>handleImageUpload\<close>

text \<open>
  The file chosen, with the type \<open>'b\<close> of its bytes, and the browser and
  \<^verbatim>\<open>pdfjs-dist\<close> calls the upload makes. \<open>'p\<close> is a PDF page, \<open>'v\<close> a viewport
  and \<open>'c\<close> a canvas that has been drawn to. A promise that rejects is \<open>Inl\<close>.
  \<open>hasContext i\<close> tells whether \<^verbatim>\<open>canvas.getContext('2d')\<close> gives a context for
  the canvas of page \<open>i\<close>. \<^verbatim>\<open>reader.result as string\<close> is taken at its word.
\<close>

record 'b js_file =
  fileSize :: nat
  fileType :: jsstring
  fileBytes :: 'b

record 'p pdf_document =
  numPages :: nat
  getPage :: "nat \<Rightarrow> jserror + 'p"

record ('b, 'p, 'v, 'c) browser =
  arrayBuffer :: "'b js_file \<Rightarrow> jserror + 'b"
  getDocument :: "'b \<Rightarrow> jserror + 'p pdf_document"
  getViewport :: "'p \<Rightarrow> real \<Rightarrow> 'v"
  hasContext :: "nat \<Rightarrow> bool"
  render :: "'p \<Rightarrow> 'v \<Rightarrow> jserror + 'c"
  toDataURL :: "'c \<Rightarrow> jsstring \<Rightarrow> jsstring"
  readAsDataURL :: "'b js_file \<Rightarrow> jsstring"

text \<open>The calls made, in order.\<close>

datatype io = ArrayBuffer | GetDocument | GetPage nat | Render nat | ReadAsDataURL

text \<open>The loop of lines 67 to 85, from page \<open>i\<close> on, with the pages pushed so far.\<close>

function rasterPages ::
  "('b, 'p, 'v, 'c) browser \<Rightarrow> 'p pdf_document \<Rightarrow> nat \<Rightarrow> jsstring list
     \<Rightarrow> io list \<times> (jserror + jsstring list)" where
  "rasterPages env pdf i pages =
     (if i \<le> numPages pdf then
        (case getPage pdf i of
           Inl err \<Rightarrow> ([GetPage i], Inl err)
         | Inr page \<Rightarrow>
             (let viewport = getViewport env page 2.0 in
              if \<not> hasContext env i
              then ([GetPage i], Inl (Error (Some [0x65E0, 0x6CD5, 0x521B, 0x5EFA, 0x753B, 0x5E03])))
              else
                (case render env page viewport of
                   Inl err \<Rightarrow> ([GetPage i, Render i], Inl err)
                 | Inr canvas \<Rightarrow>
                     (case rasterPages env pdf (Suc i)
                             (pages @ [toDataURL env canvas (js ''image/png'')]) of
                        (ios, res) \<Rightarrow> (GetPage i # Render i # ios, res)))))
      else ([], Inr pages))"
  by pat_completeness auto
termination
  by (relation "measure (\<lambda>(env, pdf, i, pages). Suc (numPages pdf) - i)") auto

declare rasterPages.simps [simp del]

text \<open>The body of the \<^verbatim>\<open>try\<close> of lines 55 to 88, up to the pages.\<close>

definition readPdf ::
  "('b, 'p, 'v, 'c) browser \<Rightarrow> 'b js_file \<Rightarrow> io list \<times> (jserror + jsstring list)" where
  "readPdf env file =
     (case arrayBuffer env file of
        Inl err \<Rightarrow> ([ArrayBuffer], Inl err)
      | Inr typedarray \<Rightarrow>
          (case getDocument env typedarray of
             Inl err \<Rightarrow> ([ArrayBuffer, GetDocument], Inl err)
           | Inr pdf \<Rightarrow>
               (case rasterPages env pdf 1 [] of
                  (ios, res) \<Rightarrow> (ArrayBuffer # GetDocument # ios, res))))"

text \<open>
  An upload: the calls made, the states the component went through while the
  upload was suspended, and the state at the end. The 50 ms pause of line 52 only
  lets the first of these states be drawn.
\<close>

record upload_run =
  effects :: "io list"
  uploading :: "app_state list"
  uploaded :: app_state

definition handleImageUpload ::
  "('b, 'p, 'v, 'c) browser \<Rightarrow> 'b js_file option \<Rightarrow> app_state \<Rightarrow> upload_run" where
  "handleImageUpload env chosen s =
     (case chosen of
        None \<Rightarrow> \<lparr> effects = [], uploading = [], uploaded = s \<rparr>
      | Some file \<Rightarrow>
          if fileSize file > 100 * 1024 * 1024
          then \<lparr> effects = [], uploading = [],
                 uploaded = s\<lparr> error := Some [0x6587, 0x4EF6, 0x5927, 0x5C0F, 0x4E0D, 0x80FD,
                                                0x8D85, 0x8FC7, 0x20, 0x31, 0x30, 0x30, 0x4D, 0x42] \<rparr> \<rparr>
          else
            (let s1 = s\<lparr> isUploading := True, error := None, resultPages := [],
                        sourcePages := [] \<rparr>
             in if fileType file = js ''application/pdf''
                then
                  (case readPdf env file of
                     (ios, Inr pages) \<Rightarrow>
                       \<lparr> effects = ios, uploading = [s1],
                         uploaded = s1\<lparr> sourcePages := pages,
                                       sourceMimeType := Some (js ''image/png''),
                                       isUploading := False, fileInputValue := [] \<rparr> \<rparr>
                   | (ios, Inl err) \<Rightarrow>
                       \<lparr> effects = ios, uploading = [s1],
                         uploaded = s1\<lparr> error := Some ([0x8BFB, 0x53D6, 0x20, 0x50, 0x44, 0x46, 0x20,
                                                        0x6587, 0x4EF6, 0x65F6, 0x53D1, 0x751F,
                                                        0x9519, 0x8BEF, 0x3A, 0x20]
                                                       @ orElse (message err)
                                                           [0x672A, 0x77E5, 0x9519, 0x8BEF]),
                                       isUploading := False, fileInputValue := [] \<rparr> \<rparr>)
                else
                  \<lparr> effects = [ReadAsDataURL], uploading = [s1],
                    uploaded = s1\<lparr> sourcePages := [readAsDataURL env file],
                                  sourceMimeType := Some (fileType file),
                                  isUploading := False, fileInputValue := [] \<rparr> \<rparr>))"

text \<open>A page renders when \<^verbatim>\<open>getPage\<close>, \<^verbatim>\<open>getContext\<close> and
  \<^verbatim>\<open>render\<close> all succeed for it; a PDF file decodes when it can be read and
  loaded and every page from 1 to \<open>numPages\<close> renders.\<close>

definition pageRenders :: "('b, 'p, 'v, 'c) browser \<Rightarrow> 'p pdf_document \<Rightarrow> nat \<Rightarrow> bool" where
  "pageRenders env pdf i =
     (case getPage pdf i of
        Inl err \<Rightarrow> False
      | Inr page \<Rightarrow>
          hasContext env i \<and>
          (case render env page (getViewport env page 2.0) of Inl err \<Rightarrow> False | Inr canvas \<Rightarrow> True))"

definition decodes :: "('b, 'p, 'v, 'c) browser \<Rightarrow> 'b js_file \<Rightarrow> bool" where
  "decodes env file =
     (case arrayBuffer env file of
        Inl err \<Rightarrow> False
      | Inr typedarray \<Rightarrow>
          (case getDocument env typedarray of
             Inl err \<Rightarrow> False
           | Inr pdf \<Rightarrow> list_all (pageRenders env pdf) [1..<Suc (numPages pdf)]))"

section \<open>downloadResult\<close>

text \<open>
  The \<^verbatim>\<open>jsPDF\<close> calls of the download. A document is its constructor arguments
  and its sheets, each the images placed on it; a new document has one empty sheet,
  \<^verbatim>\<open>addPage\<close> appends one and \<^verbatim>\<open>addImage\<close> places on the last,
  at \<open>(atX, atY)\<close> with the size \<open>atWidth\<close> by \<open>atHeight\<close>.
  \<open>pdfWidth\<close> and \<open>pdfHeight\<close> are what \<^verbatim>\<open>pdf.internal.pageSize\<close> gives for an
  A4 portrait document in millimetres. JavaScript numbers are taken as real numbers:
  rounding, infinities and NaN are outside the model, so it follows the code where the
  divisors are not zero.
\<close>

record image_properties =
  width :: real
  height :: real

record placement =
  imageData :: jsstring
  format :: jsstring
  atX :: real
  atY :: real
  atWidth :: real
  atHeight :: real

record pdf_doc =
  orientation :: jsstring
  unit :: jsstring
  paper :: jsstring
  sheets :: "placement list list"

record jspdf =
  pdfWidth :: real
  pdfHeight :: real
  getImageProperties :: "jsstring \<Rightarrow> jserror + image_properties"

definition addPage :: "pdf_doc \<Rightarrow> pdf_doc" where
  "addPage pdf = pdf\<lparr> sheets := sheets pdf @ [[]] \<rparr>"

definition addImage :: "pdf_doc \<Rightarrow> placement \<Rightarrow> pdf_doc" where
  "addImage pdf img = pdf\<lparr> sheets := butlast (sheets pdf) @ [last (sheets pdf) @ [img]] \<rparr>"

text \<open>Lines 203 to 218: where and how large the image of a page is placed.\<close>

definition fitToPage :: "jspdf \<Rightarrow> jsstring \<Rightarrow> image_properties \<Rightarrow> placement" where
  "fitToPage lib pageData imgProps =
     (let ratio = width imgProps / height imgProps;
          pdfRatio = pdfWidth lib / pdfHeight lib;
          finalWidth = (if ratio > pdfRatio then pdfWidth lib else pdfHeight lib * ratio);
          finalHeight = (if ratio > pdfRatio then pdfWidth lib / ratio else pdfHeight lib)
      in \<lparr> imageData = pageData, format = js ''PNG'',
           atX = (pdfWidth lib - finalWidth) / 2, atY = (pdfHeight lib - finalHeight) / 2,
           atWidth = finalWidth, atHeight = finalHeight \<rparr>)"

text \<open>The callback of \<^verbatim>\<open>forEach\<close> (lines 199 to 219), from \<open>index\<close> on. An error
  of \<^verbatim>\<open>getImageProperties\<close> is not caught.\<close>

fun addResultPages :: "jspdf \<Rightarrow> nat \<Rightarrow> jsstring list \<Rightarrow> pdf_doc \<Rightarrow> jserror + pdf_doc" where
  "addResultPages lib index [] pdf = Inr pdf"
| "addResultPages lib index (pageData # rest) pdf =
     (let pdf1 = (if index > 0 then addPage pdf else pdf) in
      case getImageProperties lib pageData of
        Inl err \<Rightarrow> Inl err
      | Inr imgProps \<Rightarrow>
          addResultPages lib (Suc index) rest (addImage pdf1 (fitToPage lib pageData imgProps)))"

text \<open>What a download hands to the browser: a clicked link with its \<^verbatim>\<open>href\<close> and
  \<^verbatim>\<open>download\<close> attributes, or a document saved under a name.\<close>

datatype download = Link jsstring jsstring | Saved pdf_doc jsstring

definition downloadResult :: "jspdf \<Rightarrow> app_state \<Rightarrow> jserror + download option" where
  "downloadResult lib s =
     (case resultPages s of
        [] \<Rightarrow> Inr None
      | [page] \<Rightarrow> Inr (Some (Link page (js ''cleaned_worksheet.png'')))
      | _ \<Rightarrow>
          (case addResultPages lib 0 (resultPages s)
                  \<lparr> orientation = js ''p'', unit = js ''mm'', paper = js ''a4'', sheets = [[]] \<rparr> of
             Inl err \<Rightarrow> Inl err
           | Inr pdf \<Rightarrow> Inr (Some (Saved pdf (js ''cleaned_document.pdf'')))))"

section \<open>An edit run, one response at a time\<close>

text \<open>
  \<^verbatim>\<open>processImage\<close> is suspended on every call of the service, and the component
  goes on handling the clicks of the user meanwhile. A suspended run holds what its
  closure captured when it was started, \<^verbatim>\<open>sourcePages\<close>,
  \<^verbatim>\<open>sourceMimeType\<close> and \<^verbatim>\<open>userPrompt\<close>, and its locals \<^verbatim>\<open>i\<close> and
  \<^verbatim>\<open>results\<close>. Its setters write the cells of the state the component is in when
  they are called.
\<close>

record edit_task =
  capturedPages :: "jsstring list"
  capturedMimeType :: "jsstring option"
  capturedPrompt :: jsstring
  nextIndex :: nat
  collected :: "jsstring list"

text \<open>Lines 120 to 131: the guard, the three setters, and the first call, on which the
  run is suspended.\<close>

definition startEdit :: "app_state \<Rightarrow> app_state \<times> edit_task option" where
  "startEdit s =
     (if sourcePages s = [] \<or> \<not> truthy (sourceMimeType s) then (s, None)
      else (s\<lparr> isProcessing := True, error := None, resultPages := [] \<rparr>,
            Some \<lparr> capturedPages = sourcePages s, capturedMimeType = sourceMimeType s,
                   capturedPrompt = userPrompt s, nextIndex = 0, collected = [] \<rparr>))"

text \<open>Lines 176 to 181: the \<^verbatim>\<open>catch\<close> and the \<^verbatim>\<open>finally\<close>.\<close>

definition editFailed :: "jserror \<Rightarrow> app_state \<Rightarrow> app_state" where
  "editFailed err s =
     s\<lparr> error := Some (orElse (message err)
                      [0x5904, 0x7406, 0x56FE, 0x50CF, 0x65F6, 0x53D1, 0x751F, 0x9519, 0x8BEF,
                       0x3002]),
        isProcessing := False \<rparr>"

text \<open>
  The call on which the run is suspended settles: lines 131 to 175 for the page
  \<^verbatim>\<open>i\<close>, then the test of the loop, in the state \<open>s\<close> the component is in by
  now. The run is suspended again on the call for the next page, or it ends.
\<close>

definition resumeEdit ::
  "'w edit_service \<Rightarrow> 'w \<Rightarrow> edit_task \<Rightarrow> app_state \<Rightarrow> 'w \<times> app_state \<times> edit_task option" where
  "resumeEdit gen w t s =
     (if \<not> nextIndex t < length (capturedPages t) then (w, s\<lparr> isProcessing := False \<rparr>, None)
      else
        (let req = buildRequest (capturedMimeType t) (capturedPrompt t)
                     (capturedPages t ! nextIndex t)
         in case gen w req of
              (Inl err, w') \<Rightarrow> (w', editFailed err s, None)
            | (Inr resp, w') \<Rightarrow>
                (case pageResult (nextIndex t) resp of
                   Inl err \<Rightarrow> (w', editFailed err s, None)
                 | Inr url \<Rightarrow>
                     (let s' = s\<lparr> resultPages := collected t @ [url] \<rparr> in
                      if Suc (nextIndex t) < length (capturedPages t)
                      then (w', s', Some (t\<lparr> nextIndex := Suc (nextIndex t),
                                              collected := collected t @ [url] \<rparr>))
                      else (w', s'\<lparr> isProcessing := False \<rparr>, None)))))"

text \<open>
  The controls. The start button (line 378) is disabled while a run is in progress; the
  clear button (lines 309 to 317) is shown whenever there is a source page and is
  never disabled.
\<close>

definition startDisabled :: "app_state \<Rightarrow> bool" where
  "startDisabled s = (sourcePages s = [] \<or> isProcessing s \<or> trim (userPrompt s) = [])"

definition clearShown :: "app_state \<Rightarrow> bool" where
  "clearShown s = (sourcePages s \<noteq> [])"

text \<open>A run that nothing interrupts: every call settles in the state the one before it
  left.\<close>

function runEdit :: "'w edit_service \<Rightarrow> 'w \<Rightarrow> edit_task \<Rightarrow> app_state \<Rightarrow> 'w \<times> app_state" where
  "runEdit gen w t s =
     (case resumeEdit gen w t s of
        (w', s', None) \<Rightarrow> (w', s')
      | (w', s', Some t') \<Rightarrow> runEdit gen w' t' s')"
  by pat_completeness auto
termination
  by (relation "measure (\<lambda>(gen, w, t, s). length (capturedPages t) - nextIndex t)")
    (auto simp: resumeEdit_def Let_def split: if_splits prod.splits sum.splits)

declare runEdit.simps [simp del]

section \<open>Example inputs\<close>

text \<open>Responses, services, files and browsers on which the definitions are run.\<close>

definition respondWith :: "part list \<Rightarrow> response" where
  "respondWith ps = \<lparr> candidates = Some [\<lparr> content = Some \<lparr> parts = Some ps \<rparr> \<rparr>] \<rparr>"

definition imagePart :: "jsstring option \<Rightarrow> jsstring \<Rightarrow> part" where
  "imagePart mime bytes = \<lparr> inlineData = Some \<lparr> data = Some bytes, mimeType = mime \<rparr>, text' = None \<rparr>"

definition textPart :: "jsstring \<Rightarrow> part" where
  "textPart t = \<lparr> inlineData = None, text' = Some t \<rparr>"

text \<open>A service that answers its \<open>n\<close>-th call with the \<open>n\<close>-th response of a list, and
  rejects when the list is exhausted; the world is the number of calls made.\<close>

definition scripted :: "response list \<Rightarrow> nat edit_service" where
  "scripted rs n req =
     ((case item rs n of None \<Rightarrow> Inl (Error (Some (js ''offline''))) | Some r \<Rightarrow> Inr r), Suc n)"

definition editedPage :: response where
  "editedPage = respondWith [textPart (js ''done''), imagePart None (js ''QUJD''), textPart (js ''bye'')]"

definition refusal :: response where
  "refusal = respondWith [textPart (js ''I cannot ''), textPart (js ''edit this.'')]"

text \<open>A browser in which the bytes of a PDF file are one code unit for each page, a
  page is its number, a viewport is its scale and a canvas is the page and the scale
  drawn; \<open>failing\<close> is the list of the pages whose rendering rejects.\<close>

definition pdfOf :: "nat \<Rightarrow> nat pdf_document" where
  "pdfOf n = \<lparr> numPages = n, getPage = Inr \<rparr>"

definition testBrowser :: "nat list \<Rightarrow> (jsstring, nat, real, nat \<times> real) browser" where
  "testBrowser failing =
     \<lparr> arrayBuffer = (\<lambda>f. Inr (fileBytes f)),
       getDocument = (\<lambda>b. Inr (pdfOf (length b))),
       getViewport = (\<lambda>p scale. scale),
       hasContext = (\<lambda>i. True),
       render = (\<lambda>p v. if p \<in> set failing then Inl (Error (Some (js ''boom''))) else Inr (p, v)),
       toDataURL = (\<lambda>c mime. js ''data:'' @ mime @ js '';base64,'' @ showNat (fst c)),
       readAsDataURL = (\<lambda>f. js ''data:'' @ fileType f @ js '';base64,'' @ fileBytes f) \<rparr>"

definition pdfFile :: "jsstring \<Rightarrow> jsstring js_file" where
  "pdfFile bytes = \<lparr> fileSize = length bytes, fileType = js ''application/pdf'', fileBytes = bytes \<rparr>"

definition untypedFile :: "jsstring js_file" where
  "untypedFile = \<lparr> fileSize = 4, fileType = [], fileBytes = js ''QUJD'' \<rparr>"

definition hugeFile :: "jsstring js_file" where
  "hugeFile = \<lparr> fileSize = 100 * 1024 * 1024 + 1, fileType = js ''image/png'', fileBytes = [] \<rparr>"

definition twoPages :: app_state where
  "twoPages =
     initial_state\<lparr> sourcePages := [js ''data:image/png;base64,QQ=='', js ''data:image/png;base64,Qg==''],
                    sourceMimeType := Some (js ''image/png''), userPrompt := js ''erase'' \<rparr>"

text \<open>The state after the upload of a file of which the browser does not know the
  type, with an instruction typed in.\<close>

definition untypedUpload :: app_state where
  "untypedUpload =
     (uploaded (handleImageUpload (testBrowser []) (Some untypedFile) initial_state))
       \<lparr> userPrompt := js ''erase'' \<rparr>"

text \<open>A \<^verbatim>\<open>jsPDF\<close> with a page of 210 by 297, in which the images are 200 by 100
  when their data begins with \<^verbatim>\<open>w\<close> and 100 by 200 otherwise.\<close>

definition testPdf :: jspdf where
  "testPdf =
     \<lparr> pdfWidth = 210, pdfHeight = 297,
       getImageProperties =
         (\<lambda>d. if startsWith d (js ''w'') then Inr \<lparr> width = 200, height = 100 \<rparr>
              else Inr \<lparr> width = 100, height = 200 \<rparr>) \<rparr>"

definition twoResults :: app_state where
  "twoResults = twoPages\<lparr> resultPages := [js ''wide'', js ''tall''] \<rparr>"

definition oneResult :: app_state where
  "oneResult = twoPages\<lparr> sourcePages := [js ''data:image/png;base64,QQ==''],
                         resultPages := [js ''data:image/png;base64,QUJD''] \<rparr>"

text \<open>The state after the upload of a PDF file of two pages, with an instruction typed in.\<close>

definition uploadedPdf :: app_state where
  "uploadedPdf =
     (uploaded (handleImageUpload (testBrowser []) (Some (pdfFile (js ''AB''))) initial_state))
       \<lparr> userPrompt := js ''erase'' \<rparr>"

text \<open>A response whose image part carries a MIME type, and one whose image part carries
  no bytes.\<close>

definition editedJpeg :: response where
  "editedJpeg =
     respondWith [textPart (js ''done''), imagePart (Some (js ''image/jpeg'')) (js ''QUJD''),
                  imagePart None (js ''WFla'')]"

definition bytelessPart :: part where
  "bytelessPart = \<lparr> inlineData = Some \<lparr> data = None, mimeType = Some (js ''image/png'') \<rparr>,
                    text' = None \<rparr>"

definition byteless :: response where
  "byteless = respondWith [textPart (js ''done''), bytelessPart]"

text \<open>
  The user uploads a PDF file of two pages, types an instruction and starts the edit;
  the first call settles with an image; the user clicks on the clear button while the
  run is suspended on the second call; the second call settles with an image. Each
  step is the world, the state of the component and the suspended run.
\<close>

definition editStarted :: "nat \<times> app_state \<times> edit_task option" where
  "editStarted = (0, startEdit uploadedPdf)"

definition firstPagePublished :: "nat \<times> app_state \<times> edit_task option" where
  "firstPagePublished =
     (case editStarted of
        (w, s, Some t) \<Rightarrow> resumeEdit (scripted [editedPage, editedPage]) w t s
      | (w, s, None) \<Rightarrow> (w, s, None))"

definition clearedMeanwhile :: "nat \<times> app_state \<times> edit_task option" where
  "clearedMeanwhile = (case firstPagePublished of (w, s, t) \<Rightarrow> (w, clearImage s, t))"

definition secondPagePublished :: "nat \<times> app_state \<times> edit_task option" where
  "secondPagePublished =
     (case clearedMeanwhile of
        (w, s, Some t) \<Rightarrow> resumeEdit (scripted [editedPage, editedPage]) w t s
      | (w, s, None) \<Rightarrow> (w, s, None))"

section \<open>The loop over the pages\<close>

lemma scanParts_found:
  "(fst (scanParts ps t) \<noteq> None) = list_ex (\<lambda>p. inlineData p \<noteq> None) ps"
  by (induction ps arbitrary: t) (auto split: option.splits)

lemma pageResult_found: "(\<exists>url. pageResult i r = Inr url) = hasInlineImage r"
proof (cases "responseParts r")
  case None
  then show ?thesis by (simp add: pageResult_def hasInlineImage_def)
next
  case (Some ps)
  obtain u t where st: "scanParts ps [] = (u, t)" by (cases "scanParts ps []")
  have "(u \<noteq> None) = list_ex (\<lambda>p. inlineData p \<noteq> None) ps"
    using scanParts_found [of ps "[]"] st by simp
  with Some st show ?thesis
    by (cases u) (auto simp: pageResult_def hasInlineImage_def)
qed

lemma loop_published_length:
  "length (published (processLoop gen mime prompt w i acc pages)) \<le> length pages"
  by (induction pages arbitrary: w i acc) (auto simp: Let_def split: prod.splits sum.splits)

lemma loop_results_length:
  "length (results (processLoop gen mime prompt w i acc pages))
     = length acc + length (published (processLoop gen mime prompt w i acc pages))"
  by (induction pages arbitrary: w i acc) (auto simp: Let_def split: prod.splits sum.splits)

lemma loop_results_prefix:
  "take (length acc) (results (processLoop gen mime prompt w i acc pages)) = acc"
proof (induction pages arbitrary: w i acc)
  case Nil
  then show ?case by simp
next
  case (Cons page rest)
  show ?case
  proof (cases "gen w (buildRequest mime prompt page)")
    case (Pair out w')
    show ?thesis
    proof (cases out)
      case (Inl err)
      with Pair show ?thesis by (simp add: Let_def)
    next
      case (Inr resp)
      show ?thesis
      proof (cases "pageResult i resp")
        case (Inl err)
        with Pair Inr show ?thesis by (simp add: Let_def)
      next
        case (Inr url)
        have "take (length (acc @ [url])) (results (processLoop gen mime prompt w' (Suc i) (acc @ [url]) rest)) = acc @ [url]"
          by (rule Cons.IH)
        then have "take (length acc) (take (length (acc @ [url])) (results (processLoop gen mime prompt w' (Suc i) (acc @ [url]) rest))) = take (length acc) (acc @ [url])"
          by simp
        then have "take (length acc) (results (processLoop gen mime prompt w' (Suc i) (acc @ [url]) rest)) = acc"
          by (simp add: min_def)
        with Pair \<open>out = Inr resp\<close> Inr show ?thesis by (simp add: Let_def)
      qed
    qed
  qed
qed

lemma loop_thrown_None:
  "(thrown (processLoop gen mime prompt w i acc pages) = None)
     = (length (published (processLoop gen mime prompt w i acc pages)) = length pages)"
  by (induction pages arbitrary: w i acc) (auto simp: Let_def split: prod.splits sum.splits)

lemma loop_calls_length:
  "length (calls (processLoop gen mime prompt w i acc pages))
     = (if thrown (processLoop gen mime prompt w i acc pages) = None then length pages
        else Suc (length (published (processLoop gen mime prompt w i acc pages))))"
  by (induction pages arbitrary: w i acc) (auto simp: Let_def split: prod.splits sum.splits)

lemma loop_calls_request:
  "k < length (calls (processLoop gen mime prompt w i acc pages)) \<Longrightarrow>
   fst (calls (processLoop gen mime prompt w i acc pages) ! k) = buildRequest mime prompt (pages ! k)"
proof (induction pages arbitrary: w i acc k)
  case Nil
  then show ?case by simp
next
  case (Cons page rest)
  then show ?case
    by (cases k) (auto simp: Let_def split: prod.splits sum.splits)
qed

lemma loop_results_nth:
  "k < length (published (processLoop gen mime prompt w i acc pages)) \<Longrightarrow>
   \<exists>resp. snd (calls (processLoop gen mime prompt w i acc pages) ! k) = Inr resp \<and>
     pageResult (i + k) resp = Inr (results (processLoop gen mime prompt w i acc pages) ! (length acc + k))"
proof (induction pages arbitrary: w i acc k)
  case Nil
  then show ?case by simp
next
  case (Cons page rest)
  show ?case
  proof (cases "gen w (buildRequest mime prompt page)")
    case (Pair out w')
    show ?thesis
    proof (cases out)
      case (Inl err)
      with Pair Cons.prems show ?thesis by (simp add: Let_def)
    next
      case (Inr resp)
      show ?thesis
      proof (cases "pageResult i resp")
        case (Inl err)
        with Pair Inr Cons.prems show ?thesis by (simp add: Let_def)
      next
        case url: (Inr url)
        let ?l = "processLoop gen mime prompt w' (Suc i) (acc @ [url]) rest"
        have unf: "processLoop gen mime prompt w i acc (page # rest)
          = ?l\<lparr> calls := (buildRequest mime prompt page, Inr resp) # calls ?l,
                published := (acc @ [url]) # published ?l \<rparr>"
          using Pair Inr url by (simp add: Let_def)
        show ?thesis
        proof (cases k)
          case 0
          have "take (length (acc @ [url])) (results ?l) = acc @ [url]"
            by (rule loop_results_prefix)
          then have "take (length (acc @ [url])) (results ?l) ! length acc = (acc @ [url]) ! length acc"
            by simp
          then have "results ?l ! length acc = url" by simp
          with 0 unf url show ?thesis by simp
        next
          case (Suc k')
          with Cons.prems unf have "k' < length (published ?l)" by simp
          from Cons.IH [OF this] Suc unf show ?thesis by simp
        qed
      qed
    qed
  qed
qed

lemma loop_published_nth:
  "k < length (published (processLoop gen mime prompt w i acc pages)) \<Longrightarrow>
   published (processLoop gen mime prompt w i acc pages) ! k
     = take (length acc + Suc k) (results (processLoop gen mime prompt w i acc pages))"
proof (induction pages arbitrary: w i acc k)
  case Nil
  then show ?case by simp
next
  case (Cons page rest)
  show ?case
  proof (cases "gen w (buildRequest mime prompt page)")
    case (Pair out w')
    show ?thesis
    proof (cases out)
      case (Inl err)
      with Pair Cons.prems show ?thesis by (simp add: Let_def)
    next
      case (Inr resp)
      show ?thesis
      proof (cases "pageResult i resp")
        case (Inl err)
        with Pair Inr Cons.prems show ?thesis by (simp add: Let_def)
      next
        case url: (Inr url)
        let ?l = "processLoop gen mime prompt w' (Suc i) (acc @ [url]) rest"
        have unf: "processLoop gen mime prompt w i acc (page # rest)
          = ?l\<lparr> calls := (buildRequest mime prompt page, Inr resp) # calls ?l,
                published := (acc @ [url]) # published ?l \<rparr>"
          using Pair Inr url by (simp add: Let_def)
        show ?thesis
        proof (cases k)
          case 0
          have "take (length (acc @ [url])) (results ?l) = acc @ [url]"
            by (rule loop_results_prefix)
          with 0 unf show ?thesis by simp
        next
          case (Suc k')
          with Cons.prems unf have "k' < length (published ?l)" by simp
          from Cons.IH [OF this] Suc unf show ?thesis by simp
        qed
      qed
    qed
  qed
qed

lemma loop_thrown_Some:
  "thrown (processLoop gen mime prompt w i acc pages) = Some err \<Longrightarrow>
   snd (calls (processLoop gen mime prompt w i acc pages)
          ! length (published (processLoop gen mime prompt w i acc pages))) = Inl err \<or>
   (\<exists>resp. snd (calls (processLoop gen mime prompt w i acc pages)
          ! length (published (processLoop gen mime prompt w i acc pages))) = Inr resp \<and>
      pageResult (i + length (published (processLoop gen mime prompt w i acc pages))) resp = Inl err)"
proof (induction pages arbitrary: w i acc)
  case Nil
  then show ?case by simp
next
  case (Cons page rest)
  show ?case
  proof (cases "gen w (buildRequest mime prompt page)")
    case (Pair out w')
    show ?thesis
    proof (cases out)
      case (Inl e)
      with Pair Cons.prems show ?thesis by (simp add: Let_def)
    next
      case (Inr resp)
      show ?thesis
      proof (cases "pageResult i resp")
        case (Inl e)
        with Pair Inr Cons.prems show ?thesis by (simp add: Let_def)
      next
        case url: (Inr url)
        let ?l = "processLoop gen mime prompt w' (Suc i) (acc @ [url]) rest"
        have unf: "processLoop gen mime prompt w i acc (page # rest)
          = ?l\<lparr> calls := (buildRequest mime prompt page, Inr resp) # calls ?l,
                published := (acc @ [url]) # published ?l \<rparr>"
          using Pair Inr url by (simp add: Let_def)
        with Cons.prems have "thrown ?l = Some err" by simp
        from Cons.IH [OF this] unf show ?thesis by simp
      qed
    qed
  qed
qed

section \<open>Lemmas on strings, responses and runs\<close>

lemma startsWith_append: "startsWith (t @ b) t"
  by (induction t) auto

lemma contains_startsWith: "startsWith s t \<Longrightarrow> contains s t"
  by (cases s; cases t) auto

lemma contains_middle: "contains (a @ t @ b) t"
  by (induction a) (auto simp: contains_startsWith startsWith_append)

lemma scanParts_first_image:
  "\<forall>q\<in>set pre. inlineData q = None \<Longrightarrow> inlineData p = Some d \<Longrightarrow>
   fst (scanParts (pre @ p # post) t) = Some (imageUrl d)"
  by (induction pre arbitrary: t) auto

lemma scanParts_no_image:
  "\<forall>q\<in>set ps. inlineData q = None \<Longrightarrow>
   scanParts ps t = (None, t @ concat (map (\<lambda>q. case text' q of None \<Rightarrow> [] | Some s \<Rightarrow> s) ps))"
  by (induction ps arbitrary: t) (auto simp: truthy_def interpolate_def split: option.splits)

lemma pageResult_first_image:
  assumes "responseParts r = Some (pre @ p # post)" and "\<forall>q\<in>set pre. inlineData q = None"
    and "inlineData p = Some d"
  shows "pageResult i r = Inr (imageUrl d)"
proof -
  obtain u t where st: "scanParts (pre @ p # post) [] = (u, t)"
    by (cases "scanParts (pre @ p # post) []")
  with scanParts_first_image [OF assms(2,3), of post "[]"] have "u = Some (imageUrl d)" by simp
  with st assms(1) show ?thesis by (simp add: pageResult_def)
qed

lemma pageResult_no_image:
  assumes "responseParts r = Some ps" and "\<forall>q\<in>set ps. inlineData q = None"
  shows "pageResult i r = Inl (Error (Some (noImageMessage i
           (concat (map (\<lambda>q. case text' q of None \<Rightarrow> [] | Some s \<Rightarrow> s) ps)))))"
  using assms scanParts_no_image [OF assms(2), of "[]"] by (simp add: pageResult_def)

lemma pageResult_Inl:
  "pageResult i r = Inl err \<Longrightarrow> \<exists>t. err = Error (Some (noImageMessage i t))"
  by (auto simp: pageResult_def split: option.splits prod.splits)

lemma noImageMessage_contains: "contains (noImageMessage i t) (showNat (Suc i))"
  using contains_middle [of "[0x7B2C, 0x20]" "showNat (Suc i)"] by (simp add: noImageMessage_def)

lemma noImageMessage_not_Nil: "noImageMessage i t \<noteq> []"
  by (simp add: noImageMessage_def)

lemma responseParts_respondWith [simp]: "responseParts (respondWith ps) = Some ps"
  by (simp add: responseParts_def respondWith_def)

lemma processImage_skipped:
  "sourcePages s = [] \<or> \<not> truthy (sourceMimeType s) \<Longrightarrow>
   processImage gen w s = \<lparr> requested = [], rendered = [], final = s, after = w \<rparr>"
  by (simp add: processImage_def)

lemma processImage_requested:
  "sourcePages s \<noteq> [] \<Longrightarrow> truthy (sourceMimeType s) \<Longrightarrow>
   requested (processImage gen w s)
     = calls (processLoop gen (sourceMimeType s) (userPrompt s) w 0 [] (sourcePages s))"
  by (simp add: processImage_def Let_def)

lemma processImage_resultPages:
  "sourcePages s \<noteq> [] \<Longrightarrow> truthy (sourceMimeType s) \<Longrightarrow>
   resultPages (final (processImage gen w s))
     = results (processLoop gen (sourceMimeType s) (userPrompt s) w 0 [] (sourcePages s))"
  by (simp add: processImage_def Let_def split: option.splits)

lemma processImage_sourcePages:
  "sourcePages (final (processImage gen w s)) = sourcePages s"
  by (simp add: processImage_def Let_def split: option.splits)

lemma processImage_error:
  "sourcePages s \<noteq> [] \<Longrightarrow> truthy (sourceMimeType s) \<Longrightarrow>
   error (final (processImage gen w s))
     = (case thrown (processLoop gen (sourceMimeType s) (userPrompt s) w 0 []
                       (sourcePages s)) of
          None \<Rightarrow> None
        | Some err \<Rightarrow> Some (orElse (message err)
            [0x5904, 0x7406, 0x56FE, 0x50CF, 0x65F6, 0x53D1, 0x751F, 0x9519, 0x8BEF, 0x3002]))"
  by (simp add: processImage_def Let_def split: option.splits)

lemma processImage_rendered:
  "sourcePages s \<noteq> [] \<Longrightarrow> truthy (sourceMimeType s) \<Longrightarrow>
   rendered (processImage gen w s)
     = s\<lparr> isProcessing := True, error := None, resultPages := [] \<rparr>
       # map (\<lambda>pages. s\<lparr> isProcessing := True, error := None, resultPages := pages \<rparr>)
           (published (processLoop gen (sourceMimeType s) (userPrompt s) w 0 []
                         (sourcePages s)))"
  by (simp add: processImage_def Let_def)

lemma loop_all_images:
  assumes "\<forall>c\<in>set (calls (processLoop gen mime prompt w i acc pages)).
             \<exists>resp. snd c = Inr resp \<and> hasInlineImage resp"
  shows "thrown (processLoop gen mime prompt w i acc pages) = None"
proof (rule ccontr)
  let ?l = "processLoop gen mime prompt w i acc pages"
  assume "thrown ?l \<noteq> None"
  then obtain err where err: "thrown ?l = Some err" by auto
  then have len: "length (calls ?l) = Suc (length (published ?l))"
    by (simp add: loop_calls_length)
  then have "calls ?l ! length (published ?l) \<in> set (calls ?l)" by simp
  with assms obtain resp where resp: "snd (calls ?l ! length (published ?l)) = Inr resp"
    and img: "hasInlineImage resp" by blast
  from loop_thrown_Some [OF err] resp
  have "pageResult (i + length (published ?l)) resp = Inl err" by auto
  moreover from img obtain url where "pageResult (i + length (published ?l)) resp = Inr url"
    using pageResult_found by blast
  ultimately show False by simp
qed

lemma hasInlineImage_editedPage: "hasInlineImage editedPage"
  by (simp add: hasInlineImage_def editedPage_def textPart_def imagePart_def)

lemma pageResult_editedPage: "pageResult i editedPage = Inr (js ''data:image/png;base64,QUJD'')"
  by (simp add: pageResult_def editedPage_def textPart_def imagePart_def imageUrl_def
      orElse_def interpolate_def truthy_def js_def)

lemma run_twoPages:
  "processLoop (scripted [editedPage, editedPage]) m p 0 0 [] [a, b]
   = \<lparr> calls = [(buildRequest m p a, Inr editedPage), (buildRequest m p b, Inr editedPage)],
       published = [[js ''data:image/png;base64,QUJD''],
                    [js ''data:image/png;base64,QUJD'', js ''data:image/png;base64,QUJD'']],
       results = [js ''data:image/png;base64,QUJD'', js ''data:image/png;base64,QUJD''],
       thrown = None, world = 2 \<rparr>"
  by (simp add: scripted_def pageResult_editedPage Let_def numeral_2_eq_2)

lemma pageResult_refusal:
  "pageResult i refusal = Inl (Error (Some (noImageMessage i (js ''I cannot edit this.''))))"
  by (simp add: pageResult_def refusal_def textPart_def truthy_def interpolate_def js_def)

lemma hasInlineImage_refusal: "\<not> hasInlineImage refusal"
  by (simp add: hasInlineImage_def refusal_def textPart_def)

lemma run_twoPages_refused:
  "processLoop (scripted [editedPage, refusal]) m p 0 0 [] [a, b]
   = \<lparr> calls = [(buildRequest m p a, Inr editedPage), (buildRequest m p b, Inr refusal)],
       published = [[js ''data:image/png;base64,QUJD'']],
       results = [js ''data:image/png;base64,QUJD''],
       thrown = Some (Error (Some (noImageMessage 1 (js ''I cannot edit this.'')))), world = 2 \<rparr>"
  by (simp add: scripted_def pageResult_editedPage pageResult_refusal Let_def numeral_2_eq_2)

section \<open>Lemmas on the upload\<close>

lemma raster_pages:
  "snd (rasterPages env pdf i pages) = Inr ps \<Longrightarrow>
   length ps = length pages + (Suc (numPages pdf) - i) \<and> take (length pages) ps = pages \<and>
   (\<forall>k<Suc (numPages pdf) - i. \<exists>page canvas.
      getPage pdf (i + k) = Inr page \<and> hasContext env (i + k) \<and>
      render env page (getViewport env page 2.0) = Inr canvas \<and>
      ps ! (length pages + k) = toDataURL env canvas (js ''image/png''))"
proof (induction env pdf i pages rule: rasterPages.induct)
  case (1 env pdf i pages)
  show ?case
  proof (cases "i \<le> numPages pdf")
    case False
    with "1.prems" show ?thesis by (simp add: rasterPages.simps [of env pdf i pages])
  next
    case le: True
    show ?thesis
    proof (cases "getPage pdf i")
      case (Inl err)
      with le "1.prems" show ?thesis by (simp add: rasterPages.simps [of env pdf i pages])
    next
      case page: (Inr page)
      show ?thesis
      proof (cases "hasContext env i")
        case False
        with le page "1.prems" show ?thesis
          by (simp add: rasterPages.simps [of env pdf i pages])
      next
        case ctx: True
        show ?thesis
        proof (cases "render env page (getViewport env page 2.0)")
          case (Inl err)
          with le page ctx "1.prems" show ?thesis
            by (simp add: rasterPages.simps [of env pdf i pages])
        next
          case canvas: (Inr canvas)
          let ?url = "toDataURL env canvas (js ''image/png'')"
          have "snd (rasterPages env pdf (Suc i) (pages @ [?url])) = Inr ps"
            using le page ctx canvas "1.prems"
            by (simp add: rasterPages.simps [of env pdf i pages] split: prod.splits)
          from "1.IH" [OF le page refl _ canvas this] ctx
          have len: "length ps = length (pages @ [?url]) + (Suc (numPages pdf) - Suc i)"
            and pre: "take (length (pages @ [?url])) ps = pages @ [?url]"
            and nth: "\<forall>k<Suc (numPages pdf) - Suc i. \<exists>page canvas.
              getPage pdf (Suc i + k) = Inr page \<and> hasContext env (Suc i + k) \<and>
              render env page (getViewport env page 2.0) = Inr canvas \<and>
              ps ! (length (pages @ [?url]) + k) = toDataURL env canvas (js ''image/png'')"
            by simp_all
          from len le have l: "length ps = length pages + (Suc (numPages pdf) - i)" by simp
          from pre have "take (length pages) (take (length (pages @ [?url])) ps)
              = take (length pages) (pages @ [?url])" by simp
          then have p: "take (length pages) ps = pages" by (simp add: min_def)
          from pre have "take (length (pages @ [?url])) ps ! length pages = (pages @ [?url]) ! length pages"
            by simp
          then have here: "ps ! length pages = ?url" by simp
          have "\<exists>page canvas. getPage pdf (i + k) = Inr page \<and> hasContext env (i + k) \<and>
              render env page (getViewport env page 2.0) = Inr canvas \<and>
              ps ! (length pages + k) = toDataURL env canvas (js ''image/png'')"
            if "k < Suc (numPages pdf) - i" for k
          proof (cases k)
            case 0
            with page ctx canvas here show ?thesis by simp
          next
            case (Suc k')
            with that have "k' < Suc (numPages pdf) - Suc i" by simp
            with nth Suc show ?thesis by simp
          qed
          with l p show ?thesis by blast
        qed
      qed
    qed
  qed
qed

lemma raster_outcome:
  "(\<exists>ps. snd (rasterPages env pdf i pages) = Inr ps)
     = list_all (pageRenders env pdf) [i..<Suc (numPages pdf)]"
proof (induction env pdf i pages rule: rasterPages.induct)
  case (1 env pdf i pages)
  show ?case
  proof (cases "i \<le> numPages pdf")
    case False
    then show ?thesis by (simp add: rasterPages.simps [of env pdf i pages])
  next
    case le: True
    then have upt: "[i..<Suc (numPages pdf)] = i # [Suc i..<Suc (numPages pdf)]"
      by (simp add: upt_conv_Cons)
    show ?thesis
    proof (cases "getPage pdf i")
      case (Inl err)
      with le upt show ?thesis
        by (simp add: rasterPages.simps [of env pdf i pages] pageRenders_def)
    next
      case page: (Inr page)
      show ?thesis
      proof (cases "hasContext env i")
        case False
        with le page upt show ?thesis
          by (simp add: rasterPages.simps [of env pdf i pages] pageRenders_def)
      next
        case ctx: True
        show ?thesis
        proof (cases "render env page (getViewport env page 2.0)")
          case (Inl err)
          with le page ctx upt show ?thesis
            by (simp add: rasterPages.simps [of env pdf i pages] pageRenders_def)
        next
          case canvas: (Inr canvas)
          let ?url = "toDataURL env canvas (js ''image/png'')"
          have "snd (rasterPages env pdf i pages) = snd (rasterPages env pdf (Suc i) (pages @ [?url]))"
            using le page ctx canvas
            by (simp add: rasterPages.simps [of env pdf i pages] split: prod.splits)
          moreover have "pageRenders env pdf i"
            using page ctx canvas by (simp add: pageRenders_def)
          moreover have "(\<exists>ps. snd (rasterPages env pdf (Suc i) (pages @ [?url])) = Inr ps)
              = list_all (pageRenders env pdf) [Suc i..<Suc (numPages pdf)]"
            using "1.IH" [OF le page refl _ canvas] ctx by simp
          ultimately show ?thesis by (simp only: upt list.pred_inject simp_thms)
        qed
      qed
    qed
  qed
qed

lemma readPdf_outcome: "(\<exists>ps. snd (readPdf env file) = Inr ps) = decodes env file"
proof (cases "arrayBuffer env file")
  case (Inl err)
  then show ?thesis by (simp add: readPdf_def decodes_def)
next
  case bytes: (Inr bytes)
  show ?thesis
  proof (cases "getDocument env bytes")
    case (Inl err)
    with bytes show ?thesis by (simp add: readPdf_def decodes_def)
  next
    case (Inr pdf)
    with bytes have "snd (readPdf env file) = snd (rasterPages env pdf 1 [])"
      by (simp add: readPdf_def split: prod.splits)
    moreover have "decodes env file = list_all (pageRenders env pdf) [1..<Suc (numPages pdf)]"
      using bytes Inr by (simp add: decodes_def del: upt_Suc)
    ultimately show ?thesis
      using raster_outcome [of env pdf 1 "[]"] by (simp only:)
  qed
qed

lemma upload_pdf:
  assumes "fileSize file \<le> 100 * 1024 * 1024" and "fileType file = js ''application/pdf''"
  shows "uploaded (handleImageUpload env (Some file) s)
    = (case snd (readPdf env file) of
         Inr pages \<Rightarrow>
           s\<lparr> isUploading := False, error := None, resultPages := [], sourcePages := pages,
              sourceMimeType := Some (js ''image/png''), fileInputValue := [] \<rparr>
       | Inl err \<Rightarrow>
           s\<lparr> isUploading := False,
              error := Some ([0x8BFB, 0x53D6, 0x20, 0x50, 0x44, 0x46, 0x20, 0x6587, 0x4EF6, 0x65F6,
                              0x53D1, 0x751F, 0x9519, 0x8BEF, 0x3A, 0x20]
                             @ orElse (message err) [0x672A, 0x77E5, 0x9519, 0x8BEF]),
              resultPages := [], sourcePages := [], fileInputValue := [] \<rparr>)"
  using assms by (simp add: handleImageUpload_def Let_def split: prod.splits sum.splits)

lemma raster_two:
  "rasterPages (testBrowser []) (pdfOf 2) (Suc 0) []
   = ([GetPage 1, Render 1, GetPage 2, Render 2],
      Inr [js ''data:image/png;base64,1'', js ''data:image/png;base64,2''])"
  by (simp add: rasterPages.simps testBrowser_def pdfOf_def js_def showNat.simps digit_def)


lemma decodes_two: "decodes (testBrowser []) (pdfFile (js ''AB''))"
  by (simp add: decodes_def pageRenders_def testBrowser_def pdfFile_def pdfOf_def js_def)


lemma readPdf_two:
  "readPdf (testBrowser []) (pdfFile (js ''AB''))
   = ([ArrayBuffer, GetDocument, GetPage 1, Render 1, GetPage 2, Render 2],
      Inr [js ''data:image/png;base64,1'', js ''data:image/png;base64,2''])"
proof -
  have "arrayBuffer (testBrowser []) (pdfFile (js ''AB'')) = Inr (js ''AB'')"
    by (simp add: testBrowser_def pdfFile_def)
  moreover have "getDocument (testBrowser []) (js ''AB'') = Inr (pdfOf 2)"
    by (simp add: testBrowser_def js_def numeral_2_eq_2)
  ultimately show ?thesis by (simp add: readPdf_def raster_two)
qed


lemma pdfFile_small: "fileSize (pdfFile (js ''AB'')) \<le> 100 * 1024 * 1024"
  "fileSize (pdfFile (js ''ABC'')) \<le> 100 * 1024 * 1024"
  by (simp_all add: pdfFile_def js_def)

lemma pdfFile_type: "fileType (pdfFile bytes) = js ''application/pdf''"
  by (simp add: pdfFile_def)


section \<open>Lemmas on the download\<close>

lemma fitToPage_fits:
  assumes "0 < pdfWidth lib" "0 < pdfHeight lib" "0 < width imgProps" "0 < height imgProps"
  shows "imageData (fitToPage lib pageData imgProps) = pageData"
    and "atWidth (fitToPage lib pageData imgProps) / atHeight (fitToPage lib pageData imgProps)
           = width imgProps / height imgProps"
    and "width imgProps / height imgProps > pdfWidth lib / pdfHeight lib \<Longrightarrow>
           atWidth (fitToPage lib pageData imgProps) = pdfWidth lib \<and>
           atHeight (fitToPage lib pageData imgProps) < pdfHeight lib"
    and "\<not> width imgProps / height imgProps > pdfWidth lib / pdfHeight lib \<Longrightarrow>
           atHeight (fitToPage lib pageData imgProps) = pdfHeight lib \<and>
           atWidth (fitToPage lib pageData imgProps) \<le> pdfWidth lib"
    and "2 * atX (fitToPage lib pageData imgProps) + atWidth (fitToPage lib pageData imgProps)
           = pdfWidth lib"
    and "2 * atY (fitToPage lib pageData imgProps) + atHeight (fitToPage lib pageData imgProps)
           = pdfHeight lib"
    and "0 < atWidth (fitToPage lib pageData imgProps)"
    and "0 < atHeight (fitToPage lib pageData imgProps)"
  using assms by (auto simp: fitToPage_def Let_def field_simps)

lemma addResultPages_later:
  "0 < index \<Longrightarrow> map (getImageProperties lib) pages = map Inr propss \<Longrightarrow>
   addResultPages lib index pages pdf
     = Inr (pdf\<lparr> sheets := sheets pdf @ map (\<lambda>(p, pr). [fitToPage lib p pr]) (zip pages propss) \<rparr>)"
proof (induction pages arbitrary: index pdf propss)
  case Nil
  then show ?case by simp
next
  case (Cons pageData rest)
  from Cons.prems(2) obtain pr prs where propss: "propss = pr # prs"
    and pr: "getImageProperties lib pageData = Inr pr"
    and prs: "map (getImageProperties lib) rest = map Inr prs"
    by (cases propss) auto
  have "addResultPages lib (Suc index) rest (addImage (addPage pdf) (fitToPage lib pageData pr))
    = Inr ((addImage (addPage pdf) (fitToPage lib pageData pr))
        \<lparr> sheets := sheets (addImage (addPage pdf) (fitToPage lib pageData pr))
            @ map (\<lambda>(p, pr). [fitToPage lib p pr]) (zip rest prs) \<rparr>)"
    by (rule Cons.IH) (simp_all add: prs)
  with Cons.prems(1) pr propss show ?case
    by (simp add: addImage_def addPage_def)
qed

lemma addResultPages_first:
  assumes "map (getImageProperties lib) pages = map Inr propss"
  shows "addResultPages lib 0 pages
           \<lparr> orientation = js ''p'', unit = js ''mm'', paper = js ''a4'', sheets = [[]] \<rparr>
     = Inr \<lparr> orientation = js ''p'', unit = js ''mm'', paper = js ''a4'',
             sheets = (if pages = [] then [[]]
                       else map (\<lambda>(p, pr). [fitToPage lib p pr]) (zip pages propss)) \<rparr>"
proof (cases pages)
  case Nil
  then show ?thesis by simp
next
  case (Cons pageData rest)
  with assms obtain pr prs where propss: "propss = pr # prs"
    and pr: "getImageProperties lib pageData = Inr pr"
    and prs: "map (getImageProperties lib) rest = map Inr prs"
    by (cases propss) auto
  from addResultPages_later [OF _ prs, of "Suc 0"] Cons pr propss show ?thesis
    by (simp add: addImage_def)
qed

lemma testPdf_props:
  "getImageProperties testPdf (js ''wide'') = Inr \<lparr> width = 200, height = 100 \<rparr>"
  "getImageProperties testPdf (js ''tall'') = Inr \<lparr> width = 100, height = 200 \<rparr>"
  by (simp_all add: testPdf_def js_def)

lemma testPdf_fit:
  "fitToPage testPdf d \<lparr> width = 200, height = 100 \<rparr>
     = \<lparr> imageData = d, format = js ''PNG'', atX = 0, atY = 96, atWidth = 210, atHeight = 105 \<rparr>"
  "fitToPage testPdf d \<lparr> width = 100, height = 200 \<rparr>
     = \<lparr> imageData = d, format = js ''PNG'', atX = 123 / 4, atY = 0, atWidth = 297 / 2, atHeight = 297 \<rparr>"
  by (simp_all add: fitToPage_def testPdf_def Let_def)

lemma uploadedPdf_pages:
  "sourcePages uploadedPdf = [js ''data:image/png;base64,1'', js ''data:image/png;base64,2'']"
  "sourceMimeType uploadedPdf = Some (js ''image/png'')"
  by (simp_all add: uploadedPdf_def upload_pdf [OF pdfFile_small(1) pdfFile_type] readPdf_two)

section \<open>Lemmas on a run, one response at a time\<close>

lemma run_page_outcome:
  assumes k: "k < length (requested (processImage gen w s))"
    and resp: "snd (requested (processImage gen w s) ! k) = Inr resp"
  shows "(pageResult k resp = Inr url \<longrightarrow>
            k < length (resultPages (final (processImage gen w s))) \<and>
            resultPages (final (processImage gen w s)) ! k = url) \<and>
         (pageResult k resp = Inl err \<longrightarrow>
            length (resultPages (final (processImage gen w s))) = k \<and>
            length (requested (processImage gen w s)) = Suc k \<and>
            error (final (processImage gen w s))
              = Some (orElse (message err)
                  [0x5904, 0x7406, 0x56FE, 0x50CF, 0x65F6, 0x53D1, 0x751F, 0x9519, 0x8BEF, 0x3002]))"
proof -
  let ?l = "processLoop gen (sourceMimeType s) (userPrompt s) w 0 [] (sourcePages s)"
  let ?n = "length (published ?l)"
  have guard: "sourcePages s \<noteq> [] \<and> truthy (sourceMimeType s)"
  proof (rule ccontr)
    assume "\<not> ?thesis"
    then have "requested (processImage gen w s) = []" by (simp add: processImage_def)
    with k show False by simp
  qed
  then have src: "sourcePages s \<noteq> []" and mime: "truthy (sourceMimeType s)" by simp_all
  note run = processImage_requested [OF src mime] processImage_resultPages [OF src mime]
    processImage_error [OF src mime]
  from k have kc: "k < length (calls ?l)" unfolding run .
  from resp have rc: "snd (calls ?l ! k) = Inr resp" unfolding run .
  have rl: "length (results ?l) = ?n"
    using loop_results_length [of gen _ _ w 0 "[]" "sourcePages s"] by simp
  show ?thesis
  proof (cases "k < ?n")
    case True
    from loop_results_nth [OF True] rc have "pageResult k resp = Inr (results ?l ! k)" by auto
    with True rl show ?thesis unfolding run by auto
  next
    case nk: False
    have "thrown ?l \<noteq> None"
    proof
      assume "thrown ?l = None"
      then have "length (calls ?l) = ?n" by (simp add: loop_calls_length loop_thrown_None)
      with kc nk show False by simp
    qed
    then obtain e where e: "thrown ?l = Some e" by auto
    then have len: "length (calls ?l) = Suc ?n" by (simp add: loop_calls_length)
    with kc nk have kn: "k = ?n" by simp
    with loop_thrown_Some [OF e] rc have "pageResult k resp = Inl e" by auto
    with e len kn rl show ?thesis unfolding run by auto
  qed
qed

lemma run_two_ok:
  "pageResult 0 r1 = Inr u1 \<Longrightarrow> pageResult (Suc 0) r2 = Inr u2 \<Longrightarrow>
   processLoop (scripted [r1, r2]) m p 0 0 [] [a, b]
   = \<lparr> calls = [(buildRequest m p a, Inr r1), (buildRequest m p b, Inr r2)],
       published = [[u1], [u1, u2]], results = [u1, u2], thrown = None, world = 2 \<rparr>"
  by (simp add: scripted_def Let_def numeral_2_eq_2)

lemma run_two_fail:
  "pageResult 0 r1 = Inr u1 \<Longrightarrow> pageResult (Suc 0) r2 = Inl e \<Longrightarrow>
   processLoop (scripted [r1, r2]) m p 0 0 [] [a, b]
   = \<lparr> calls = [(buildRequest m p a, Inr r1), (buildRequest m p b, Inr r2)],
       published = [[u1]], results = [u1], thrown = Some e, world = 2 \<rparr>"
  by (simp add: scripted_def Let_def numeral_2_eq_2)

lemma pageResult_editedJpeg: "pageResult i editedJpeg = Inr (js ''data:image/jpeg;base64,QUJD'')"
  by (simp add: pageResult_def editedJpeg_def textPart_def imagePart_def imageUrl_def
      orElse_def interpolate_def truthy_def js_def)

lemma pageResult_byteless: "pageResult i byteless = Inr (js ''data:image/png;base64,undefined'')"
  by (simp add: pageResult_def byteless_def bytelessPart_def textPart_def imageUrl_def
      orElse_def interpolate_def truthy_def js_def)

text \<open>A run that nothing interrupts ends in the world and in the state that
  \<^verbatim>\<open>processImage\<close> gives as a whole.\<close>

lemma runEdit_loop:
  "i < length pages \<Longrightarrow> resultPages s = acc \<Longrightarrow>
   runEdit gen w \<lparr> capturedPages = pages, capturedMimeType = mime, capturedPrompt = prompt,
                   nextIndex = i, collected = acc \<rparr> s
   = (world (processLoop gen mime prompt w i acc (drop i pages)),
      case thrown (processLoop gen mime prompt w i acc (drop i pages)) of
        None \<Rightarrow> s\<lparr> resultPages := results (processLoop gen mime prompt w i acc (drop i pages)),
                   isProcessing := False \<rparr>
      | Some err \<Rightarrow>
          editFailed err
            (s\<lparr> resultPages := results (processLoop gen mime prompt w i acc (drop i pages)) \<rparr>))"
proof (induction "length pages - i" arbitrary: i acc s w)
  case 0
  then show ?case by simp
next
  case (Suc n)
  let ?t = "\<lparr> capturedPages = pages, capturedMimeType = mime, capturedPrompt = prompt,
              nextIndex = i, collected = acc \<rparr>"
  let ?req = "buildRequest mime prompt (pages ! i)"
  from Suc.prems have dr: "drop i pages = pages ! i # drop (Suc i) pages"
    by (simp add: Cons_nth_drop_Suc)
  from Suc.prems have same: "s\<lparr> resultPages := acc \<rparr> = s" by simp
  show ?case
  proof (cases "gen w ?req")
    case (Pair out w')
    show ?thesis
    proof (cases out)
      case (Inl err)
      with Pair Suc.prems(1) dr show ?thesis
        by (simp add: runEdit.simps [of gen w ?t s] resumeEdit_def Let_def same)
    next
      case (Inr resp)
      show ?thesis
      proof (cases "pageResult i resp")
        case (Inl err)
        with Pair Inr Suc.prems(1) dr show ?thesis
          by (simp add: runEdit.simps [of gen w ?t s] resumeEdit_def Let_def same)
      next
        case url: (Inr url)
        show ?thesis
        proof (cases "Suc i < length pages")
          case False
          with Suc.prems have "drop (Suc i) pages = []" by simp
          with False Pair Inr url Suc.prems dr show ?thesis
            by (simp add: runEdit.simps [of gen w ?t s] resumeEdit_def Let_def)
        next
          case True
          from Suc.hyps(2) True have n: "n = length pages - Suc i" by simp
          have res: "resultPages (s\<lparr> resultPages := acc @ [url] \<rparr>) = acc @ [url]" by simp
          from Suc.hyps(1) [OF n True res, of w']
          have "runEdit gen w' \<lparr> capturedPages = pages, capturedMimeType = mime,
                  capturedPrompt = prompt, nextIndex = Suc i, collected = acc @ [url] \<rparr>
                  (s\<lparr> resultPages := acc @ [url] \<rparr>)
            = (world (processLoop gen mime prompt w' (Suc i) (acc @ [url]) (drop (Suc i) pages)),
               case thrown (processLoop gen mime prompt w' (Suc i) (acc @ [url]) (drop (Suc i) pages)) of
                 None \<Rightarrow> s\<lparr> resultPages := results (processLoop gen mime prompt w' (Suc i) (acc @ [url]) (drop (Suc i) pages)),
                            isProcessing := False \<rparr>
               | Some err \<Rightarrow>
                   editFailed err
                     (s\<lparr> resultPages := results (processLoop gen mime prompt w' (Suc i) (acc @ [url]) (drop (Suc i) pages)) \<rparr>))"
            by (cases "thrown (processLoop gen mime prompt w' (Suc i) (acc @ [url]) (drop (Suc i) pages))")
              simp_all
          with True Pair Inr url Suc.prems(1) dr show ?thesis
            by (simp add: runEdit.simps [of gen w ?t s] resumeEdit_def Let_def
                split: option.splits)
        qed
      qed
    qed
  qed
qed

lemma runEdit_processImage:
  "(case startEdit s of (s1, None) \<Rightarrow> (w, s1) | (s1, Some t) \<Rightarrow> runEdit gen w t s1)
   = (after (processImage gen w s), final (processImage gen w s))"
proof (cases "sourcePages s = [] \<or> \<not> truthy (sourceMimeType s)")
  case True
  then show ?thesis by (simp add: startEdit_def processImage_def)
next
  case False
  then have len: "0 < length (sourcePages s)" by simp
  have res: "resultPages (s\<lparr> isProcessing := True, error := None, resultPages := [] \<rparr>) = []"
    by simp
  from False runEdit_loop [OF len res, of gen w "sourceMimeType s" "userPrompt s"]
  show ?thesis
    by (simp add: startEdit_def processImage_def Let_def editFailed_def split: option.splits)
qed

lemma uploadedPdf_ready:
  "isProcessing uploadedPdf = False" "userPrompt uploadedPdf = js ''erase''"
  "truthy (Some (js ''image/png''))"
proof -
  show "isProcessing uploadedPdf = False" "userPrompt uploadedPdf = js ''erase''"
    by (simp_all add: uploadedPdf_def upload_pdf [OF pdfFile_small(1) pdfFile_type] readPdf_two
        initial_state_def)
  show "truthy (Some (js ''image/png''))"
    by (simp add: truthy_def js_def)
qed

lemma editStarted_eq:
  "editStarted
   = (0, uploadedPdf\<lparr> isProcessing := True, error := None, resultPages := [] \<rparr>,
      Some \<lparr> capturedPages = [js ''data:image/png;base64,1'', js ''data:image/png;base64,2''],
             capturedMimeType = Some (js ''image/png''), capturedPrompt = js ''erase'',
             nextIndex = 0, collected = [] \<rparr>)"
  by (simp add: editStarted_def startEdit_def uploadedPdf_pages uploadedPdf_ready)

lemma firstPagePublished_eq:
  "firstPagePublished
   = (1, uploadedPdf\<lparr> isProcessing := True, error := None,
                       resultPages := [js ''data:image/png;base64,QUJD''] \<rparr>,
      Some \<lparr> capturedPages = [js ''data:image/png;base64,1'', js ''data:image/png;base64,2''],
             capturedMimeType = Some (js ''image/png''), capturedPrompt = js ''erase'',
             nextIndex = 1, collected = [js ''data:image/png;base64,QUJD''] \<rparr>)"
  by (simp add: firstPagePublished_def editStarted_eq resumeEdit_def scripted_def
      pageResult_editedPage Let_def)

lemma secondPagePublished_eq:
  "secondPagePublished
   = (2, (clearImage (uploadedPdf\<lparr> isProcessing := True, error := None,
                                   resultPages := [js ''data:image/png;base64,QUJD''] \<rparr>))
           \<lparr> resultPages := [js ''data:image/png;base64,QUJD'', js ''data:image/png;base64,QUJD''],
             isProcessing := False \<rparr>,
      None)"
  by (simp add: secondPagePublished_def clearedMeanwhile_def firstPagePublished_eq resumeEdit_def
      scripted_def pageResult_editedPage Let_def)

section \<open>Properties\<close>

text \<open>
  C9. From every prior state, whatever its source pages, result pages and error,
  \<open>clearImage\<close> leaves the source sequence empty, the source MIME type null,
  the result sequence empty and the error null.
\<close>

theorem clearImage_resets:
  "sourcePages (clearImage s) = [] \<and> sourceMimeType (clearImage s) = None \<and>
   resultPages (clearImage s) = [] \<and> error (clearImage s) = None"
  by (simp add: clearImage_def)

text \<open>
  C1, as amended. \<^verbatim>\<open>processImage\<close> returns at once when there is no source page
  or when the source MIME type is falsy, which the empty string is, as well as null.
  For every document of K source pages, K at least 1, with a source MIME type that is
  neither null nor empty: if every call of the edit service in the run resolves to a
  response with an inline-image part, then the result sequence has exactly K pages,
  one call was made for each page, the call of index \<open>k\<close> carries the source page of
  index \<open>k\<close> and the result page of index \<open>k\<close> is the image URL built from its
  response, and no error is set.
\<close>

theorem processImage_all_pages:
  assumes "sourcePages s \<noteq> []" and "truthy (sourceMimeType s)"
    and "\<forall>c\<in>set (requested (processImage gen w s)). \<exists>resp. snd c = Inr resp \<and> hasInlineImage resp"
  shows "length (resultPages (final (processImage gen w s))) = length (sourcePages s) \<and>
         length (requested (processImage gen w s)) = length (sourcePages s) \<and>
         (\<forall>k<length (sourcePages s).
            fst (requested (processImage gen w s) ! k)
              = buildRequest (sourceMimeType s) (userPrompt s) (sourcePages s ! k) \<and>
            (\<exists>resp. snd (requested (processImage gen w s) ! k) = Inr resp \<and>
               pageResult k resp = Inr (resultPages (final (processImage gen w s)) ! k))) \<and>
         error (final (processImage gen w s)) = None"
proof -
  let ?l = "processLoop gen (sourceMimeType s) (userPrompt s) w 0 [] (sourcePages s)"
  note run = processImage_requested [OF assms(1,2)] processImage_resultPages [OF assms(1,2)]
    processImage_error [OF assms(1,2)]
  from assms(3) have none: "thrown ?l = None"
    unfolding run by (rule loop_all_images)
  then have pub: "length (published ?l) = length (sourcePages s)"
    by (simp add: loop_thrown_None)
  have res: "length (results ?l) = length (sourcePages s)"
    using pub loop_results_length [of gen _ _ w 0 "[]" "sourcePages s"] by simp
  have cal: "length (calls ?l) = length (sourcePages s)"
    using none by (simp add: loop_calls_length)
  have nth: "fst (calls ?l ! k)
        = buildRequest (sourceMimeType s) (userPrompt s) (sourcePages s ! k) \<and>
      (\<exists>resp. snd (calls ?l ! k) = Inr resp \<and> pageResult k resp = Inr (results ?l ! k))"
    if "k < length (sourcePages s)" for k
  proof -
    from that cal have "k < length (calls ?l)" by simp
    then have a: "fst (calls ?l ! k)
        = buildRequest (sourceMimeType s) (userPrompt s) (sourcePages s ! k)"
      by (rule loop_calls_request)
    from that pub have "k < length (published ?l)" by simp
    from loop_results_nth [OF this] a show ?thesis by simp
  qed
  from res cal nth none show ?thesis unfolding run by simp
qed

theorem processImage_all_pages_witness:
  "map snd (requested (processImage (scripted [editedPage, editedPage]) 0 twoPages))
     = [Inr editedPage, Inr editedPage] \<and>
   hasInlineImage editedPage \<and>
   resultPages (final (processImage (scripted [editedPage, editedPage]) 0 twoPages))
     = [js ''data:image/png;base64,QUJD'', js ''data:image/png;base64,QUJD''] \<and>
   length (sourcePages twoPages) = 2 \<and>
   error (final (processImage (scripted [editedPage, editedPage]) 0 twoPages)) = None"
proof -
  have src: "sourcePages twoPages \<noteq> []" and mime: "truthy (sourceMimeType twoPages)"
    by (simp_all add: twoPages_def truthy_def js_def)
  have req: "map snd (requested (processImage (scripted [editedPage, editedPage]) 0 twoPages))
     = [Inr editedPage, Inr editedPage]"
    by (simp add: processImage_requested [OF src mime]) (simp add: twoPages_def run_twoPages del: processLoop.simps)
  have res: "resultPages (final (processImage (scripted [editedPage, editedPage]) 0 twoPages))
     = [js ''data:image/png;base64,QUJD'', js ''data:image/png;base64,QUJD'']"
    by (simp add: processImage_resultPages [OF src mime]) (simp add: twoPages_def run_twoPages del: processLoop.simps)
  have good: "\<forall>c\<in>set (requested (processImage (scripted [editedPage, editedPage]) 0 twoPages)).
     \<exists>resp. snd c = Inr resp \<and> hasInlineImage resp"
  proof
    fix c assume "c \<in> set (requested (processImage (scripted [editedPage, editedPage]) 0 twoPages))"
    then have "snd c \<in> set (map snd (requested (processImage (scripted [editedPage, editedPage]) 0 twoPages)))"
      by simp
    then have "snd c = Inr editedPage" unfolding req by simp
    then show "\<exists>resp. snd c = Inr resp \<and> hasInlineImage resp"
      by (simp add: hasInlineImage_editedPage)
  qed
  from processImage_all_pages [OF src mime good] req res show ?thesis
    by (simp add: hasInlineImage_editedPage twoPages_def)
qed

text \<open>
  C1 as stated fails: a file of which the browser does not know the type has the empty
  string as its type, so after its upload there is one source page and the source MIME
  type is not null; the service would answer with an image, and the run makes no call
  and leaves the result sequence empty.
\<close>

theorem processImage_untyped_counterexample:
  "sourcePages untypedUpload = [js ''data:;base64,QUJD''] \<and>
   sourceMimeType untypedUpload = Some [] \<and>
   hasInlineImage editedPage \<and>
   requested (processImage (scripted [editedPage]) 0 untypedUpload) = [] \<and>
   resultPages (final (processImage (scripted [editedPage]) 0 untypedUpload)) = []"
  by (simp add: untypedUpload_def handleImageUpload_def untypedFile_def testBrowser_def
      initial_state_def processImage_def truthy_def hasInlineImage_editedPage js_def)

text \<open>
  C2. In every run of \<^verbatim>\<open>processImage\<close>, if the response to page \<open>j\<close> (counted
  from 1) has no inline-image part, then after the run the result sequence has length
  \<open>j - 1\<close>, exactly \<open>j\<close> calls were made, so none for a page after \<open>j\<close>, the error
  is the message thrown for that response and contains the decimal number \<open>j\<close>, every
  page before \<open>j\<close> had a response with an image, of which the result page at its index
  is built, and the pages published before the failure are the result sequence. A
  response without image ends the run, so such a page is the first one.
\<close>

theorem processImage_first_failure:
  assumes j: "0 < j" "j \<le> length (requested (processImage gen w s))"
    and resp: "snd (requested (processImage gen w s) ! (j - 1)) = Inr resp"
    and noimg: "\<not> hasInlineImage resp"
  shows "length (resultPages (final (processImage gen w s))) = j - 1 \<and>
         length (requested (processImage gen w s)) = j \<and>
         (\<exists>msg. error (final (processImage gen w s)) = Some msg \<and>
                pageResult (j - 1) resp = Inl (Error (Some msg)) \<and> contains msg (showNat j)) \<and>
         (\<forall>k<j - 1. \<exists>resp'. snd (requested (processImage gen w s) ! k) = Inr resp' \<and>
                hasInlineImage resp' \<and>
                pageResult k resp' = Inr (resultPages (final (processImage gen w s)) ! k)) \<and>
         resultPages (last (rendered (processImage gen w s)))
           = resultPages (final (processImage gen w s))"
proof -
  let ?l = "processLoop gen (sourceMimeType s) (userPrompt s) w 0 [] (sourcePages s)"
  let ?n = "length (published ?l)"
  have guard: "sourcePages s \<noteq> [] \<and> truthy (sourceMimeType s)"
  proof (rule ccontr)
    assume "\<not> ?thesis"
    then have "requested (processImage gen w s) = []" by (simp add: processImage_def)
    with j show False by simp
  qed
  then have src: "sourcePages s \<noteq> []" and mime: "truthy (sourceMimeType s)" by simp_all
  note run = processImage_requested [OF src mime] processImage_resultPages [OF src mime]
    processImage_error [OF src mime] processImage_rendered [OF src mime]
  from j have jc: "j - 1 < length (calls ?l)" unfolding run by simp
  from resp have rc: "snd (calls ?l ! (j - 1)) = Inr resp" unfolding run .
  have good: "\<exists>resp'. snd (calls ?l ! k) = Inr resp' \<and> hasInlineImage resp' \<and>
      pageResult k resp' = Inr (results ?l ! k)" if "k < ?n" for k
  proof -
    from loop_results_nth [OF that] obtain resp' where
      r': "snd (calls ?l ! k) = Inr resp'" "pageResult k resp' = Inr (results ?l ! k)" by auto
    then have "hasInlineImage resp'" using pageResult_found by blast
    with r' show ?thesis by blast
  qed
  have notlt: "\<not> j - 1 < ?n"
  proof
    assume "j - 1 < ?n"
    from good [OF this] rc noimg show False by auto
  qed
  have thr: "thrown ?l \<noteq> None"
  proof
    assume "thrown ?l = None"
    then have "length (calls ?l) = ?n" by (simp add: loop_calls_length loop_thrown_None)
    with jc notlt show False by simp
  qed
  then obtain err where err: "thrown ?l = Some err" by auto
  then have len: "length (calls ?l) = Suc ?n" by (simp add: loop_calls_length)
  with jc notlt have jn: "j - 1 = ?n" by simp
  with j have jS: "j = Suc ?n" by simp
  from loop_thrown_Some [OF err] rc jn have pr: "pageResult (j - 1) resp = Inl err" by auto
  then obtain t where t: "err = Error (Some (noImageMessage (j - 1) t))"
    using pageResult_Inl by blast
  have e: "error (final (processImage gen w s)) = Some (noImageMessage (j - 1) t)"
    unfolding run using err t by (simp add: orElse_def noImageMessage_not_Nil)
  have inc: "contains (noImageMessage (j - 1) t) (showNat j)"
    using noImageMessage_contains [of "j - 1" t] j by simp
  have rl: "length (results ?l) = ?n"
    using loop_results_length [of gen _ _ w 0 "[]" "sourcePages s"] by simp
  have lastr: "resultPages (last (rendered (processImage gen w s))) = results ?l"
  proof (cases "published ?l = []")
    case True
    with rl show ?thesis unfolding run by simp
  next
    case False
    then have n: "?n - 1 < ?n" by simp
    have "last (published ?l) = published ?l ! (?n - 1)"
      using False by (simp add: last_conv_nth)
    also have "\<dots> = take (Suc (?n - 1)) (results ?l)"
      using loop_published_nth [OF n] by simp
    also have "\<dots> = results ?l" using n rl by simp
    finally show ?thesis unfolding run using False by (simp add: last_map)
  qed
  from rl jn len jS e pr t inc good lastr show ?thesis unfolding run by auto
qed

theorem processImage_first_failure_witness:
  "snd (requested (processImage (scripted [editedPage, refusal]) 0 twoPages) ! 1) = Inr refusal \<and>
   \<not> hasInlineImage refusal \<and>
   length (requested (processImage (scripted [editedPage, refusal]) 0 twoPages)) = 2 \<and>
   resultPages (final (processImage (scripted [editedPage, refusal]) 0 twoPages))
     = [js ''data:image/png;base64,QUJD''] \<and>
   error (final (processImage (scripted [editedPage, refusal]) 0 twoPages))
     = Some ([0x7B2C, 0x20] @ js ''2''
        @ [0x20, 0x9875, 0x672A, 0x80FD, 0x751F, 0x6210, 0x56FE, 0x50CF, 0x3002, 0x41, 0x49,
           0x56DE, 0x590D, 0x3A, 0x20]
        @ js ''I cannot edit this.'')"
proof -
  have src: "sourcePages twoPages \<noteq> []" and mime: "truthy (sourceMimeType twoPages)"
    by (simp_all add: twoPages_def truthy_def js_def)
  have req: "requested (processImage (scripted [editedPage, refusal]) 0 twoPages)
     = [(buildRequest (Some (js ''image/png'')) (js ''erase'') (js ''data:image/png;base64,QQ==''), Inr editedPage),
        (buildRequest (Some (js ''image/png'')) (js ''erase'') (js ''data:image/png;base64,Qg==''), Inr refusal)]"
    by (simp add: processImage_requested [OF src mime])
      (simp add: twoPages_def run_twoPages_refused del: processLoop.simps)
  have res: "resultPages (final (processImage (scripted [editedPage, refusal]) 0 twoPages))
     = [js ''data:image/png;base64,QUJD'']"
    by (simp add: processImage_resultPages [OF src mime])
      (simp add: twoPages_def run_twoPages_refused del: processLoop.simps)
  have h1: "(0::nat) < 2" by simp
  have h2: "2 \<le> length (requested (processImage (scripted [editedPage, refusal]) 0 twoPages))"
    by (simp add: req)
  have h3: "snd (requested (processImage (scripted [editedPage, refusal]) 0 twoPages) ! (2 - 1)) = Inr refusal"
    by (simp add: req)
  from processImage_first_failure [OF h1 h2 h3 hasInlineImage_refusal] req res show ?thesis
    by (simp add: hasInlineImage_refusal pageResult_refusal noImageMessage_def orElse_def js_def
        showNat.simps digit_def)
qed

text \<open>
  C6, as amended. The code tests whether a part has the field \<^verbatim>\<open>inlineData\<close>, not
  whether the field carries bytes. In every run and for every call \<open>k\<close> of it that
  resolved to a response: when the parts are \<open>pre @ p # post\<close>, no part of \<open>pre\<close> has
  inline data and \<open>p\<close> has, then the result page stored at index \<open>k\<close> is the data URL
  made of the MIME type of \<open>p\<close>, or \<^verbatim>\<open>image/png\<close> when it is absent or empty, and
  of the bytes of \<open>p\<close>, or the word \<^verbatim>\<open>undefined\<close> when it carries none,
  whatever \<open>post\<close> is: the parts after \<open>p\<close> are not looked at. When no part has
  inline data, or there are no parts, the run ends at this call with \<open>k\<close> result
  pages, and the error set is the fixed text with the number \<open>k + 1\<close> followed by the
  texts of the parts, concatenated in order, or by one fixed character when there is
  no text.
\<close>

theorem first_inline_part_or_failure:
  "(k < length (requested (processImage gen w s)) \<and>
    snd (requested (processImage gen w s) ! k) = Inr resp \<and>
    responseParts resp = Some (pre @ p # post) \<and> (\<forall>q\<in>set pre. inlineData q = None) \<and>
    inlineData p = Some d \<longrightarrow>
      k < length (resultPages (final (processImage gen w s))) \<and>
      resultPages (final (processImage gen w s)) ! k
        = js ''data:''
          @ (case mimeType d of None \<Rightarrow> js ''image/png''
             | Some m \<Rightarrow> if m = [] then js ''image/png'' else m)
          @ js '';base64,''
          @ (case data d of None \<Rightarrow> js ''undefined'' | Some bytes \<Rightarrow> bytes)) \<and>
   (k' < length (requested (processImage gen' w' s')) \<and>
    snd (requested (processImage gen' w' s') ! k') = Inr resp' \<and>
    (case responseParts resp' of None \<Rightarrow> [] | Some ps' \<Rightarrow> ps') = ps \<and>
    (\<forall>q\<in>set ps. inlineData q = None) \<longrightarrow>
      length (resultPages (final (processImage gen' w' s'))) = k' \<and>
      length (requested (processImage gen' w' s')) = Suc k' \<and>
      error (final (processImage gen' w' s'))
        = Some ([0x7B2C, 0x20] @ showNat (k' + 1)
            @ [0x20, 0x9875, 0x672A, 0x80FD, 0x751F, 0x6210, 0x56FE, 0x50CF, 0x3002, 0x41, 0x49,
               0x56DE, 0x590D, 0x3A, 0x20]
            @ (if concat (map (\<lambda>q. case text' q of None \<Rightarrow> [] | Some t \<Rightarrow> t) ps) = []
               then [0x65E0]
               else concat (map (\<lambda>q. case text' q of None \<Rightarrow> [] | Some t \<Rightarrow> t) ps))))"
proof (intro conjI impI)
  assume a: "k < length (requested (processImage gen w s)) \<and>
    snd (requested (processImage gen w s) ! k) = Inr resp \<and>
    responseParts resp = Some (pre @ p # post) \<and> (\<forall>q\<in>set pre. inlineData q = None) \<and>
    inlineData p = Some d"
  then have "pageResult k resp = Inr (imageUrl d)"
    using pageResult_first_image [of resp pre p post d k] by simp
  with a run_page_outcome [of k gen w s resp "imageUrl d"]
  have "k < length (resultPages (final (processImage gen w s))) \<and>
      resultPages (final (processImage gen w s)) ! k = imageUrl d" by simp
  then show "k < length (resultPages (final (processImage gen w s)))"
    and "resultPages (final (processImage gen w s)) ! k
        = js ''data:''
          @ (case mimeType d of None \<Rightarrow> js ''image/png''
             | Some m \<Rightarrow> if m = [] then js ''image/png'' else m)
          @ js '';base64,''
          @ (case data d of None \<Rightarrow> js ''undefined'' | Some bytes \<Rightarrow> bytes)"
    by (simp_all add: imageUrl_def orElse_def interpolate_def)
next
  let ?texts = "concat (map (\<lambda>q. case text' q of None \<Rightarrow> [] | Some t \<Rightarrow> t) ps)"
  assume a: "k' < length (requested (processImage gen' w' s')) \<and>
    snd (requested (processImage gen' w' s') ! k') = Inr resp' \<and>
    (case responseParts resp' of None \<Rightarrow> [] | Some ps' \<Rightarrow> ps') = ps \<and>
    (\<forall>q\<in>set ps. inlineData q = None)"
  have pr: "pageResult k' resp' = Inl (Error (Some (noImageMessage k' ?texts)))"
  proof (cases "responseParts resp'")
    case None
    with a have "ps = []" by simp
    with None show ?thesis by (simp add: pageResult_def)
  next
    case (Some ps')
    with a have "ps' = ps" by simp
    with Some a pageResult_no_image [of resp' ps k'] show ?thesis by simp
  qed
  with a run_page_outcome [of k' gen' w' s' resp' _ "Error (Some (noImageMessage k' ?texts))"]
  have out: "length (resultPages (final (processImage gen' w' s'))) = k' \<and>
      length (requested (processImage gen' w' s')) = Suc k' \<and>
      error (final (processImage gen' w' s'))
        = Some (orElse (Some (noImageMessage k' ?texts))
            [0x5904, 0x7406, 0x56FE, 0x50CF, 0x65F6, 0x53D1, 0x751F, 0x9519, 0x8BEF, 0x3002])"
    by simp
  then show "length (resultPages (final (processImage gen' w' s'))) = k'"
    and "length (requested (processImage gen' w' s')) = Suc k'"
    by simp_all
  from out show "error (final (processImage gen' w' s'))
        = Some ([0x7B2C, 0x20] @ showNat (k' + 1)
            @ [0x20, 0x9875, 0x672A, 0x80FD, 0x751F, 0x6210, 0x56FE, 0x50CF, 0x3002, 0x41, 0x49,
               0x56DE, 0x590D, 0x3A, 0x20]
            @ (if ?texts = [] then [0x65E0] else ?texts))"
    by (simp add: orElse_def noImageMessage_def)
qed

theorem first_inline_part_or_failure_witness:
  "snd (requested (processImage (scripted [editedJpeg, refusal]) 0 twoPages) ! 0) = Inr editedJpeg \<and>
   responseParts editedJpeg
     = Some ([textPart (js ''done'')] @ imagePart (Some (js ''image/jpeg'')) (js ''QUJD'')
             # [imagePart None (js ''WFla'')]) \<and>
   list_all (\<lambda>q. inlineData q = None) [textPart (js ''done'')] \<and>
   inlineData (imagePart (Some (js ''image/jpeg'')) (js ''QUJD''))
     = Some \<lparr> data = Some (js ''QUJD''), mimeType = Some (js ''image/jpeg'') \<rparr> \<and>
   resultPages (final (processImage (scripted [editedJpeg, refusal]) 0 twoPages)) ! 0
     = js ''data:image/jpeg;base64,QUJD'' \<and>
   snd (requested (processImage (scripted [editedJpeg, refusal]) 0 twoPages) ! 1) = Inr refusal \<and>
   responseParts refusal = Some [textPart (js ''I cannot ''), textPart (js ''edit this.'')] \<and>
   list_all (\<lambda>q. inlineData q = None) [textPart (js ''I cannot ''), textPart (js ''edit this.'')] \<and>
   length (resultPages (final (processImage (scripted [editedJpeg, refusal]) 0 twoPages))) = 1 \<and>
   length (requested (processImage (scripted [editedJpeg, refusal]) 0 twoPages)) = 2 \<and>
   error (final (processImage (scripted [editedJpeg, refusal]) 0 twoPages))
     = Some ([0x7B2C, 0x20] @ js ''2''
        @ [0x20, 0x9875, 0x672A, 0x80FD, 0x751F, 0x6210, 0x56FE, 0x50CF, 0x3002, 0x41, 0x49,
           0x56DE, 0x590D, 0x3A, 0x20]
        @ js ''I cannot edit this.'')"
proof -
  let ?R = "processImage (scripted [editedJpeg, refusal]) 0 twoPages"
  have src: "sourcePages twoPages \<noteq> []" and mime: "truthy (sourceMimeType twoPages)"
    by (simp_all add: twoPages_def truthy_def js_def)
  have req: "requested ?R
     = [(buildRequest (Some (js ''image/png'')) (js ''erase'') (js ''data:image/png;base64,QQ==''),
         Inr editedJpeg),
        (buildRequest (Some (js ''image/png'')) (js ''erase'') (js ''data:image/png;base64,Qg==''),
         Inr refusal)]"
    by (simp add: processImage_requested [OF src mime])
      (simp add: twoPages_def run_two_fail [OF pageResult_editedJpeg pageResult_refusal]
        del: processLoop.simps)
  have p1: "responseParts editedJpeg
     = Some ([textPart (js ''done'')] @ imagePart (Some (js ''image/jpeg'')) (js ''QUJD'')
             # [imagePart None (js ''WFla'')])"
    by (simp add: editedJpeg_def)
  have p2: "responseParts refusal = Some [textPart (js ''I cannot ''), textPart (js ''edit this.'')]"
    by (simp add: refusal_def)
  have i1: "inlineData (imagePart (Some (js ''image/jpeg'')) (js ''QUJD''))
     = Some \<lparr> data = Some (js ''QUJD''), mimeType = Some (js ''image/jpeg'') \<rparr>"
    by (simp add: imagePart_def)
  have jpeg: "js ''image/jpeg'' \<noteq> []" by (simp add: js_def)
  have texts: "js ''I cannot '' @ js ''edit this.'' = js ''I cannot edit this.''"
    "js ''I cannot edit this.'' \<noteq> []" "showNat 2 = js ''2''"
    by (simp_all add: js_def showNat.simps digit_def)
  from first_inline_part_or_failure [of 0 "scripted [editedJpeg, refusal]" 0 twoPages editedJpeg
      "[textPart (js ''done'')]" "imagePart (Some (js ''image/jpeg'')) (js ''QUJD'')"
      "[imagePart None (js ''WFla'')]"
      "\<lparr> data = Some (js ''QUJD''), mimeType = Some (js ''image/jpeg'') \<rparr>"
      1 "scripted [editedJpeg, refusal]" 0 twoPages refusal
      "[textPart (js ''I cannot ''), textPart (js ''edit this.'')]"]
    req p1 p2 i1 jpeg texts
  show ?thesis by (simp add: textPart_def) (simp add: js_def showNat.simps digit_def)
qed

text \<open>
  C6 as stated fails: in both responses of this run no part contains image bytes, the
  only part with inline data carrying a MIME type and no data, and yet neither call is
  treated as a failure: two result pages are stored and no error is set.
\<close>

theorem byteless_part_counterexample:
  "requested (processImage (scripted [byteless, byteless]) 0 twoPages)
     = [(buildRequest (Some (js ''image/png'')) (js ''erase'') (js ''data:image/png;base64,QQ==''),
         Inr byteless),
        (buildRequest (Some (js ''image/png'')) (js ''erase'') (js ''data:image/png;base64,Qg==''),
         Inr byteless)] \<and>
   responseParts byteless = Some [textPart (js ''done''), bytelessPart] \<and>
   inlineData (textPart (js ''done'')) = None \<and>
   inlineData bytelessPart = Some \<lparr> data = None, mimeType = Some (js ''image/png'') \<rparr> \<and>
   resultPages (final (processImage (scripted [byteless, byteless]) 0 twoPages))
     = [js ''data:image/png;base64,undefined'', js ''data:image/png;base64,undefined''] \<and>
   error (final (processImage (scripted [byteless, byteless]) 0 twoPages)) = None"
proof -
  have src: "sourcePages twoPages \<noteq> []" and mime: "truthy (sourceMimeType twoPages)"
    by (simp_all add: twoPages_def truthy_def js_def)
  note run = run_two_ok [OF pageResult_byteless pageResult_byteless]
  have "requested (processImage (scripted [byteless, byteless]) 0 twoPages)
     = [(buildRequest (Some (js ''image/png'')) (js ''erase'') (js ''data:image/png;base64,QQ==''),
         Inr byteless),
        (buildRequest (Some (js ''image/png'')) (js ''erase'') (js ''data:image/png;base64,Qg==''),
         Inr byteless)]"
    by (simp add: processImage_requested [OF src mime])
      (simp add: twoPages_def run del: processLoop.simps)
  moreover have "resultPages (final (processImage (scripted [byteless, byteless]) 0 twoPages))
     = [js ''data:image/png;base64,undefined'', js ''data:image/png;base64,undefined'']"
    by (simp add: processImage_resultPages [OF src mime])
      (simp add: twoPages_def run del: processLoop.simps)
  moreover have "error (final (processImage (scripted [byteless, byteless]) 0 twoPages)) = None"
    by (simp add: processImage_error [OF src mime])
      (simp add: twoPages_def run del: processLoop.simps)
  ultimately show ?thesis
    by (simp add: byteless_def bytelessPart_def textPart_def)
qed

text \<open>
  C10. In every run, when the response to the page of index \<open>k\<close> has a first part with
  inline data that carries image bytes and no MIME type (absent, or the empty string),
  the result page stored at index \<open>k\<close> is the data URL of these bytes with the MIME
  type \<^verbatim>\<open>image/png\<close>.
\<close>

theorem missing_mime_defaults_to_png:
  assumes k: "k < length (requested (processImage gen w s))"
    and resp: "snd (requested (processImage gen w s) ! k) = Inr resp"
    and parts: "responseParts resp = Some (pre @ p # post)"
    and pre: "\<forall>q\<in>set pre. inlineData q = None"
    and p: "inlineData p = Some d"
    and nomime: "\<not> truthy (mimeType d)"
    and bytes: "data d = Some bytes"
  shows "k < length (resultPages (final (processImage gen w s))) \<and>
         resultPages (final (processImage gen w s)) ! k = js ''data:image/png;base64,'' @ bytes"
proof -
  let ?l = "processLoop gen (sourceMimeType s) (userPrompt s) w 0 [] (sourcePages s)"
  let ?n = "length (published ?l)"
  have guard: "sourcePages s \<noteq> [] \<and> truthy (sourceMimeType s)"
  proof (rule ccontr)
    assume "\<not> ?thesis"
    then have "requested (processImage gen w s) = []" by (simp add: processImage_def)
    with k show False by simp
  qed
  then have src: "sourcePages s \<noteq> []" and mime: "truthy (sourceMimeType s)" by simp_all
  note run = processImage_requested [OF src mime] processImage_resultPages [OF src mime]
  have url: "pageResult k resp = Inr (imageUrl d)"
    using parts pre p by (rule pageResult_first_image)
  have png: "imageUrl d = js ''data:image/png;base64,'' @ bytes"
    using nomime bytes
    by (auto simp: imageUrl_def orElse_def truthy_def interpolate_def js_def split: option.splits)
  from k have kc: "k < length (calls ?l)" unfolding run .
  from resp have rc: "snd (calls ?l ! k) = Inr resp" unfolding run .
  have kn: "k < ?n"
  proof (rule ccontr)
    assume nk: "\<not> k < ?n"
    have "thrown ?l \<noteq> None"
    proof
      assume "thrown ?l = None"
      then have "length (calls ?l) = ?n" by (simp add: loop_calls_length loop_thrown_None)
      with kc nk show False by simp
    qed
    then obtain err where err: "thrown ?l = Some err" by auto
    then have "length (calls ?l) = Suc ?n" by (simp add: loop_calls_length)
    with kc nk have "k = ?n" by simp
    with loop_thrown_Some [OF err] rc have "pageResult k resp = Inl err" by auto
    with url show False by simp
  qed
  have rl: "length (results ?l) = ?n"
    using loop_results_length [of gen _ _ w 0 "[]" "sourcePages s"] by simp
  from loop_results_nth [OF kn] rc url have "results ?l ! k = imageUrl d" by auto
  with kn rl png show ?thesis unfolding run by simp
qed

theorem missing_mime_defaults_to_png_witness:
  "snd (requested (processImage (scripted [editedPage, editedPage]) 0 twoPages) ! 1) = Inr editedPage \<and>
   responseParts editedPage
     = Some ([textPart (js ''done'')] @ imagePart None (js ''QUJD'') # [textPart (js ''bye'')]) \<and>
   resultPages (final (processImage (scripted [editedPage, editedPage]) 0 twoPages)) ! 1
     = js ''data:image/png;base64,QUJD''"
proof -
  have src: "sourcePages twoPages \<noteq> []" and mime: "truthy (sourceMimeType twoPages)"
    by (simp_all add: twoPages_def truthy_def js_def)
  have req: "requested (processImage (scripted [editedPage, editedPage]) 0 twoPages)
     = [(buildRequest (Some (js ''image/png'')) (js ''erase'') (js ''data:image/png;base64,QQ==''), Inr editedPage),
        (buildRequest (Some (js ''image/png'')) (js ''erase'') (js ''data:image/png;base64,Qg==''), Inr editedPage)]"
    by (simp add: processImage_requested [OF src mime])
      (simp add: twoPages_def run_twoPages del: processLoop.simps)
  have h1: "1 < length (requested (processImage (scripted [editedPage, editedPage]) 0 twoPages))"
    by (simp add: req)
  have h2: "snd (requested (processImage (scripted [editedPage, editedPage]) 0 twoPages) ! 1) = Inr editedPage"
    by (simp add: req)
  have h3: "responseParts editedPage
     = Some ([textPart (js ''done'')] @ imagePart None (js ''QUJD'') # [textPart (js ''bye'')])"
    by (simp add: editedPage_def)
  have h4: "\<forall>q\<in>set [textPart (js ''done'')]. inlineData q = None"
    by (simp add: textPart_def)
  have h5: "inlineData (imagePart None (js ''QUJD'')) = Some \<lparr> data = Some (js ''QUJD''), mimeType = None \<rparr>"
    by (simp add: imagePart_def)
  have h6: "\<not> truthy (mimeType \<lparr> data = Some (js ''QUJD''), mimeType = None \<rparr>)"
    by (simp add: truthy_def)
  have h7: "data \<lparr> data = Some (js ''QUJD''), mimeType = None \<rparr> = Some (js ''QUJD'')"
    by simp
  from missing_mime_defaults_to_png [OF h1 h2 h3 h4 h5 h6 h7] h2 h3 show ?thesis
    by (simp add: js_def)
qed

text \<open>
  C3. For every PDF file of size at most 100MB that can be read and loaded as a document
  of N pages, of which every page from 1 to N is fetched, given a context and rendered
  without error: the upload produces exactly N source pages, the source page of index
  \<open>k\<close> is \<^verbatim>\<open>toDataURL('image/png')\<close> of the canvas on which page \<open>k + 1\<close> was
  rendered with the viewport of scale 2.0, the source MIME type is
  \<^verbatim>\<open>image/png\<close>, and no error is set.
\<close>

theorem upload_pdf_pages:
  assumes size: "fileSize file \<le> 100 * 1024 * 1024" and type: "fileType file = js ''application/pdf''"
    and bytes: "arrayBuffer env file = Inr typedarray" and pdf: "getDocument env typedarray = Inr pdf"
    and ok: "decodes env file"
  shows "length (sourcePages (uploaded (handleImageUpload env (Some file) s))) = numPages pdf \<and>
         (\<forall>k<numPages pdf. \<exists>page canvas.
            getPage pdf (k + 1) = Inr page \<and>
            render env page (getViewport env page 2.0) = Inr canvas \<and>
            sourcePages (uploaded (handleImageUpload env (Some file) s)) ! k
              = toDataURL env canvas (js ''image/png'')) \<and>
         sourceMimeType (uploaded (handleImageUpload env (Some file) s)) = Some (js ''image/png'') \<and>
         error (uploaded (handleImageUpload env (Some file) s)) = None"
proof -
  from ok obtain ps where ps: "snd (readPdf env file) = Inr ps"
    using readPdf_outcome by blast
  with bytes pdf have "snd (rasterPages env pdf 1 []) = Inr ps"
    by (simp add: readPdf_def split: prod.splits)
  from raster_pages [OF this]
  have len: "length ps = numPages pdf"
    and nth: "\<forall>k<numPages pdf. \<exists>page canvas.
      getPage pdf (1 + k) = Inr page \<and> hasContext env (1 + k) \<and>
      render env page (getViewport env page 2.0) = Inr canvas \<and>
      ps ! k = toDataURL env canvas (js ''image/png'')"
    by simp_all
  from nth have "\<forall>k<numPages pdf. \<exists>page canvas.
      getPage pdf (k + 1) = Inr page \<and>
      render env page (getViewport env page 2.0) = Inr canvas \<and>
      ps ! k = toDataURL env canvas (js ''image/png'')"
    by (metis add.commute)
  with len ps show ?thesis by (simp add: upload_pdf [OF size type])
qed

theorem upload_pdf_pages_witness:
  "decodes (testBrowser []) (pdfFile (js ''AB'')) \<and>
   getDocument (testBrowser []) (js ''AB'') = Inr (pdfOf 2) \<and>
   numPages (pdfOf 2) = 2 \<and>
   sourcePages (uploaded (handleImageUpload (testBrowser []) (Some (pdfFile (js ''AB''))) initial_state))
     = [js ''data:image/png;base64,1'', js ''data:image/png;base64,2''] \<and>
   sourceMimeType (uploaded (handleImageUpload (testBrowser []) (Some (pdfFile (js ''AB''))) initial_state))
     = Some (js ''image/png'')"
proof -
  have bytes: "arrayBuffer (testBrowser []) (pdfFile (js ''AB'')) = Inr (js ''AB'')"
    by (simp add: testBrowser_def pdfFile_def)
  have pdf: "getDocument (testBrowser []) (js ''AB'') = Inr (pdfOf 2)"
    by (simp add: testBrowser_def js_def numeral_2_eq_2)
  have pages: "sourcePages (uploaded (handleImageUpload (testBrowser []) (Some (pdfFile (js ''AB''))) initial_state))
     = [js ''data:image/png;base64,1'', js ''data:image/png;base64,2'']"
    by (simp add: upload_pdf [OF pdfFile_small(1) pdfFile_type] readPdf_two)
  from upload_pdf_pages [OF pdfFile_small(1) pdfFile_type bytes pdf decodes_two, of initial_state]
    pages pdf decodes_two
  show ?thesis by (simp add: pdfOf_def)
qed

text \<open>
  C5. For every file of more than 100MB, from every state, the upload makes no call (no
  file read, no decoding, no rasterization), goes through no intermediate state, and
  ends in the state it started from with the error set to the size-limit message: the
  source and result sequences and every other cell are unchanged.
\<close>

theorem upload_too_large:
  "fileSize file > 100 * 1024 * 1024 \<Longrightarrow>
   handleImageUpload env (Some file) s
     = \<lparr> effects = [], uploading = [],
         uploaded = s\<lparr> error := Some [0x6587, 0x4EF6, 0x5927, 0x5C0F, 0x4E0D, 0x80FD, 0x8D85,
                                       0x8FC7, 0x20, 0x31, 0x30, 0x30, 0x4D, 0x42] \<rparr> \<rparr>"
  by (simp add: handleImageUpload_def)

theorem upload_too_large_witness:
  "fileSize hugeFile > 100 * 1024 * 1024 \<and>
   handleImageUpload (testBrowser []) (Some hugeFile) twoPages
     = \<lparr> effects = [], uploading = [],
         uploaded = twoPages\<lparr> error := Some [0x6587, 0x4EF6, 0x5927, 0x5C0F, 0x4E0D, 0x80FD,
                                              0x8D85, 0x8FC7, 0x20, 0x31, 0x30, 0x30, 0x4D, 0x42] \<rparr> \<rparr>"
proof -
  have big: "fileSize hugeFile > 100 * 1024 * 1024" by (simp add: hugeFile_def)
  from upload_too_large [OF big] big show ?thesis by simp
qed




text \<open>
  C4. With the numbers of JavaScript taken as real numbers. When the result sequence has
  exactly one page, the download is a link to that page with the file name
  \<^verbatim>\<open>cleaned_worksheet.png\<close>. When it has more than one page, the page of
  \<^verbatim>\<open>jsPDF\<close> has a positive width and height and every result page is an image
  of which \<^verbatim>\<open>jsPDF\<close> reads a positive width and height, the download is a document
  made with \<^verbatim>\<open>'p'\<close>, \<^verbatim>\<open>'mm'\<close> and \<^verbatim>\<open>'a4'\<close>, saved as
  \<^verbatim>\<open>cleaned_document.pdf\<close>, with as many sheets as there are result pages; the
  sheet of index \<open>k\<close> holds the result page of index \<open>k\<close> alone, drawn with the ratio
  of width to height of the image, at the full width of the page when the image is
  relatively wider than the page and at its full height otherwise, and with equal
  margins left and right and equal margins above and below.
\<close>

theorem downloadResult_files:
  "(resultPages s = [page] \<longrightarrow>
      downloadResult lib s = Inr (Some (Link page (js ''cleaned_worksheet.png'')))) \<and>
   (1 < length (resultPages s') \<and> 0 < pdfWidth lib \<and> 0 < pdfHeight lib \<and>
    map (getImageProperties lib) (resultPages s') = map Inr propss \<and>
    (\<forall>pr\<in>set propss. 0 < width pr \<and> 0 < height pr) \<longrightarrow>
      (\<exists>pdf. downloadResult lib s' = Inr (Some (Saved pdf (js ''cleaned_document.pdf''))) \<and>
         orientation pdf = js ''p'' \<and> unit pdf = js ''mm'' \<and> paper pdf = js ''a4'' \<and>
         length (sheets pdf) = length (resultPages s') \<and>
         (\<forall>k<length (resultPages s'). \<exists>img.
            sheets pdf ! k = [img] \<and> imageData img = resultPages s' ! k \<and>
            atWidth img / atHeight img = width (propss ! k) / height (propss ! k) \<and>
            (if width (propss ! k) / height (propss ! k) > pdfWidth lib / pdfHeight lib
             then atWidth img = pdfWidth lib \<and> atHeight img < pdfHeight lib
             else atHeight img = pdfHeight lib \<and> atWidth img \<le> pdfWidth lib) \<and>
            2 * atX img + atWidth img = pdfWidth lib \<and>
            2 * atY img + atHeight img = pdfHeight lib)))"
proof (intro conjI impI)
  assume "resultPages s = [page]"
  then show "downloadResult lib s = Inr (Some (Link page (js ''cleaned_worksheet.png'')))"
    by (simp add: downloadResult_def)
next
  assume a: "1 < length (resultPages s') \<and> 0 < pdfWidth lib \<and> 0 < pdfHeight lib \<and>
    map (getImageProperties lib) (resultPages s') = map Inr propss \<and>
    (\<forall>pr\<in>set propss. 0 < width pr \<and> 0 < height pr)"
  let ?pdf = "\<lparr> orientation = js ''p'', unit = js ''mm'', paper = js ''a4'',
      sheets = map (\<lambda>(p, pr). [fitToPage lib p pr]) (zip (resultPages s') propss) \<rparr>"
  from a have props: "map (getImageProperties lib) (resultPages s') = map Inr propss" by simp
  then have "length (map (getImageProperties lib) (resultPages s')) = length (map Inr propss :: (jserror + image_properties) list)"
    by simp
  then have len: "length propss = length (resultPages s')" by simp
  from a have ne: "resultPages s' \<noteq> []" by auto
  from a obtain p q rest where pages: "resultPages s' = p # q # rest"
    by (cases "resultPages s'"; cases "tl (resultPages s')") auto
  have "downloadResult lib s' = Inr (Some (Saved ?pdf (js ''cleaned_document.pdf'')))"
    using addResultPages_first [OF props] ne pages by (simp add: downloadResult_def)
  moreover have "length (sheets ?pdf) = length (resultPages s')" using len by simp
  moreover have "\<exists>img. sheets ?pdf ! k = [img] \<and> imageData img = resultPages s' ! k \<and>
      atWidth img / atHeight img = width (propss ! k) / height (propss ! k) \<and>
      (if width (propss ! k) / height (propss ! k) > pdfWidth lib / pdfHeight lib
       then atWidth img = pdfWidth lib \<and> atHeight img < pdfHeight lib
       else atHeight img = pdfHeight lib \<and> atWidth img \<le> pdfWidth lib) \<and>
      2 * atX img + atWidth img = pdfWidth lib \<and>
      2 * atY img + atHeight img = pdfHeight lib"
    if k: "k < length (resultPages s')" for k
  proof -
    from k len have "propss ! k \<in> set propss" by simp
    with a have pos: "0 < pdfWidth lib" "0 < pdfHeight lib" "0 < width (propss ! k)"
      "0 < height (propss ! k)" by auto
    have sh: "sheets ?pdf ! k = [fitToPage lib (resultPages s' ! k) (propss ! k)]"
      using k len by simp
    from fitToPage_fits [OF pos, of "resultPages s' ! k"] sh show ?thesis
      by (cases "width (propss ! k) / height (propss ! k) > pdfWidth lib / pdfHeight lib") simp_all
  qed
  ultimately show "\<exists>pdf. downloadResult lib s' = Inr (Some (Saved pdf (js ''cleaned_document.pdf''))) \<and>
         orientation pdf = js ''p'' \<and> unit pdf = js ''mm'' \<and> paper pdf = js ''a4'' \<and>
         length (sheets pdf) = length (resultPages s') \<and>
         (\<forall>k<length (resultPages s'). \<exists>img.
            sheets pdf ! k = [img] \<and> imageData img = resultPages s' ! k \<and>
            atWidth img / atHeight img = width (propss ! k) / height (propss ! k) \<and>
            (if width (propss ! k) / height (propss ! k) > pdfWidth lib / pdfHeight lib
             then atWidth img = pdfWidth lib \<and> atHeight img < pdfHeight lib
             else atHeight img = pdfHeight lib \<and> atWidth img \<le> pdfWidth lib) \<and>
            2 * atX img + atWidth img = pdfWidth lib \<and>
            2 * atY img + atHeight img = pdfHeight lib)"
    by (intro exI [of _ ?pdf]) simp
qed

theorem downloadResult_files_witness:
  "resultPages oneResult = [js ''data:image/png;base64,QUJD''] \<and>
   downloadResult testPdf oneResult
     = Inr (Some (Link (js ''data:image/png;base64,QUJD'') (js ''cleaned_worksheet.png''))) \<and>
   resultPages twoResults = [js ''wide'', js ''tall''] \<and>
   map (getImageProperties testPdf) (resultPages twoResults)
     = map Inr [\<lparr> width = 200, height = 100 \<rparr>, \<lparr> width = 100, height = 200 \<rparr>] \<and>
   downloadResult testPdf twoResults
     = Inr (Some (Saved
         \<lparr> orientation = js ''p'', unit = js ''mm'', paper = js ''a4'',
           sheets =
             [[\<lparr> imageData = js ''wide'', format = js ''PNG'', atX = 0, atY = 96,
                 atWidth = 210, atHeight = 105 \<rparr>],
              [\<lparr> imageData = js ''tall'', format = js ''PNG'', atX = 123 / 4, atY = 0,
                 atWidth = 297 / 2, atHeight = 297 \<rparr>]] \<rparr>
         (js ''cleaned_document.pdf'')))"
  using downloadResult_files [of oneResult "js ''data:image/png;base64,QUJD''" testPdf twoResults
      "[\<lparr> width = 200, height = 100 \<rparr>, \<lparr> width = 100, height = 200 \<rparr>]"]
  by (simp add: oneResult_def twoResults_def downloadResult_def testPdf_props testPdf_fit
      addImage_def addPage_def)

text \<open>
  C7 fails in the code. The user uploads a PDF file of two pages, types an instruction
  and starts the edit, the start button being enabled. After the image of the first
  page is published the run is suspended on the call for the second page; the start
  button is disabled, the clear button is shown, and the user clicks on it, which
  empties the source and the result sequences. The second call settles with an image
  and line 174 publishes the two results of the run: the component ends with no source
  page and two result pages.
\<close>

theorem clear_during_edit_breaks_bound:
  "sourcePages uploadedPdf = [js ''data:image/png;base64,1'', js ''data:image/png;base64,2''] \<and>
   \<not> startDisabled uploadedPdf \<and>
   sourcePages (fst (snd firstPagePublished))
     = [js ''data:image/png;base64,1'', js ''data:image/png;base64,2''] \<and>
   resultPages (fst (snd firstPagePublished)) = [js ''data:image/png;base64,QUJD''] \<and>
   snd (snd firstPagePublished) \<noteq> None \<and>
   startDisabled (fst (snd firstPagePublished)) \<and>
   clearShown (fst (snd firstPagePublished)) \<and>
   fst (snd clearedMeanwhile) = clearImage (fst (snd firstPagePublished)) \<and>
   snd (snd clearedMeanwhile) = snd (snd firstPagePublished) \<and>
   snd (snd secondPagePublished) = None \<and>
   sourcePages (fst (snd secondPagePublished)) = [] \<and>
   resultPages (fst (snd secondPagePublished))
     = [js ''data:image/png;base64,QUJD'', js ''data:image/png;base64,QUJD''] \<and>
   length (sourcePages (fst (snd secondPagePublished)))
     < length (resultPages (fst (snd secondPagePublished)))"
proof -
  have "trim (js ''erase'') \<noteq> []"
    by (simp add: trim_def isWhiteSpace_def js_def)
  then show ?thesis
    by (simp add: uploadedPdf_pages uploadedPdf_ready firstPagePublished_eq secondPagePublished_eq
        clearedMeanwhile_def clearImage_def startDisabled_def clearShown_def)
qed

end
